theory Spec2Isabelle
  imports Complex_Main
begin

section \<open>The numpy operations the program calls\<close>

text \<open>
  The program is \<^verbatim>\<open>src/mobius_strip.py\<close>: a class \<^verbatim>\<open>MobiusStrip\<close> whose constructor
  samples a parameter grid and maps it to coordinates, and whose methods
  \<^verbatim>\<open>surface_area\<close> and \<^verbatim>\<open>edge_length\<close> reduce arrays to one number.

  Numbers are modelled as exact reals: \<^verbatim>\<open>float64\<close> rounding, overflow and NaN are not
  part of this development, so every statement below is about the arithmetic the
  program writes down, carried out exactly.  One-dimensional arrays are lists,
  two-dimensional arrays are lists of rows.  The numpy functions are not code of the
  repository; they are modelled after numpy's documented behaviour, including the
  exceptions they raise.
\<close>

datatype error = ValueError | ZeroDivisionError | AxisError

definition bind_err :: "error + 'a \<Rightarrow> ('a \<Rightarrow> error + 'b) \<Rightarrow> error + 'b" where
  "bind_err m f = (case m of Inl e \<Rightarrow> Inl e | Inr a \<Rightarrow> f a)"

text \<open>
  \<^verbatim>\<open>np.linspace(start, stop, num)\<close> with \<^verbatim>\<open>endpoint=True\<close>: a negative \<^verbatim>\<open>num\<close> raises
  \<^verbatim>\<open>ValueError\<close>; otherwise \<^verbatim>\<open>arange(num) * step + start\<close> with \<^verbatim>\<open>step = (stop - start) / (num - 1)\<close>
  (\<^verbatim>\<open>arange(num) * (stop - start) + start\<close> when \<^verbatim>\<open>num - 1\<close> is not positive), and the last
  entry overwritten with \<^verbatim>\<open>stop\<close> when \<^verbatim>\<open>num > 1\<close>.
  (When the step is 0 numpy computes \<^verbatim>\<open>arange(num) / (num - 1) * (stop - start)\<close> instead,
  which is the same number in exact arithmetic.)
\<close>

definition linspace :: "real \<Rightarrow> real \<Rightarrow> int \<Rightarrow> error + real list" where
  "linspace start stop num =
     (if num < 0 then Inl ValueError
      else
        let m = nat num;
            dv = num - 1;
            delta = stop - start;
            y = map (\<lambda>j. if 0 < dv then real j * (delta / real_of_int dv) else real j * delta) [0..<m];
            y' = map (\<lambda>t. t + start) y
        in Inr (if 1 < num then y'[m - 1 := stop] else y'))"

text \<open>
  \<^verbatim>\<open>np.meshgrid(a, b)\<close> with the default \<^verbatim>\<open>indexing='xy'\<close>: both results have
  \<^verbatim>\<open>len(b)\<close> rows and \<^verbatim>\<open>len(a)\<close> columns; the first repeats \<^verbatim>\<open>a\<close> in every row, the
  second repeats \<^verbatim>\<open>b[i]\<close> along row \<^verbatim>\<open>i\<close>.
\<close>

definition meshgrid :: "real list \<Rightarrow> real list \<Rightarrow> real list list \<times> real list list" where
  "meshgrid a b = (replicate (length b) a, map (\<lambda>t. replicate (length a) t) b)"

text \<open>
  The number of columns of a two-dimensional array.  A list of rows with no row does
  not record it; it is taken as 0 there, which is the shape \<^verbatim>\<open>(0, 0)\<close> of the only
  row-less grids the constructor builds.
\<close>

definition ncols :: "'a list list \<Rightarrow> nat" where
  "ncols f = (case f of [] \<Rightarrow> 0 | r # _ \<Rightarrow> length r)"

text \<open>
  \<^verbatim>\<open>np.gradient(f, axis=...)\<close> with unit spacing and \<^verbatim>\<open>edge_order=1\<close>.  Along the chosen
  axis: \<^verbatim>\<open>out[0] = f[1] - f[0]\<close>, \<^verbatim>\<open>out[-1] = f[-1] - f[-2]\<close> and
  \<^verbatim>\<open>out[1:-1] = (f[2:] - f[:-2]) / 2\<close>; fewer than two entries along the axis raise
  \<^verbatim>\<open>ValueError\<close>.  \<open>gradient_along\<close> is that scheme for any kind of entry: numbers
  for a row (axis 1), whole rows for the list of rows (axis 0).
\<close>

definition gradient_along :: "('a \<Rightarrow> 'a \<Rightarrow> 'a) \<Rightarrow> ('a \<Rightarrow> 'a) \<Rightarrow> 'a list \<Rightarrow> 'a list" where
  "gradient_along sub half f =
     (let N = length f in
      map (\<lambda>k. if k = 0 then sub (f ! 1) (f ! 0)
               else if k = N - 1 then sub (f ! (N - 1)) (f ! (N - 2))
               else half (sub (f ! (k + 1)) (f ! (k - 1)))) [0..<N])"

definition gradient :: "real list list \<Rightarrow> nat \<Rightarrow> error + real list list" where
  "gradient f axis =
     (if axis = 0 then
        (if length f < 2 then Inl ValueError
         else Inr (gradient_along (map2 (-)) (map (\<lambda>t. t / 2)) f))
      else if axis = 1 then
        (if ncols f < 2 then Inl ValueError
         else Inr (map (gradient_along (-) (\<lambda>t. t / 2)) f))
      else Inl AxisError)"

text \<open>Elementwise arithmetic on two-dimensional arrays of one shape.\<close>

definition arr_mul :: "real list list \<Rightarrow> real list list \<Rightarrow> real list list" where
  "arr_mul a b = map2 (map2 (*)) a b"

definition arr_sub :: "real list list \<Rightarrow> real list list \<Rightarrow> real list list" where
  "arr_sub a b = map2 (map2 (-)) a b"

definition arr_add :: "real list list \<Rightarrow> real list list \<Rightarrow> real list list" where
  "arr_add a b = map2 (map2 (+)) a b"

definition arr_sq :: "real list list \<Rightarrow> real list list" where
  "arr_sq a = map (map (\<lambda>t. t\<^sup>2)) a"

definition arr_sqrt :: "real list list \<Rightarrow> real list list" where
  "arr_sqrt a = map (map sqrt) a"

text \<open>\<^verbatim>\<open>np.sum\<close> of a two-dimensional array: the sum of all entries.\<close>

definition np_sum :: "real list list \<Rightarrow> real" where
  "np_sum a = sum_list (map sum_list a)"

text \<open>\<^verbatim>\<open>np.diff\<close> of a one-dimensional array: \<^verbatim>\<open>a[1:] - a[:-1]\<close>.\<close>

definition diff :: "real list \<Rightarrow> real list" where
  "diff a = map2 (-) (tl a) (butlast a)"

section \<open>The class\<close>

record MobiusStrip =
  self_R :: real
  self_w :: real
  self_n :: int
  self_u :: "real list list"
  self_v :: "real list list"
  self_x :: "real list list"
  self_y :: "real list list"
  self_z :: "real list list"

text \<open>
  \<^verbatim>\<open>_compute_coordinates\<close> reads \<^verbatim>\<open>self.u\<close>, \<^verbatim>\<open>self.v\<close> and \<^verbatim>\<open>self.R\<close> while the object is
  still being built, so the model takes the three as arguments.
\<close>

definition compute_coordinates ::
  "real \<Rightarrow> real list list \<Rightarrow> real list list \<Rightarrow> real list list \<times> real list list \<times> real list list" where
  "compute_coordinates R u v =
     (let x = map2 (map2 (\<lambda>uu vv. (R + vv * cos (uu / 2)) * cos uu)) u v;
          y = map2 (map2 (\<lambda>uu vv. (R + vv * cos (uu / 2)) * sin uu)) u v;
          z = map2 (map2 (\<lambda>uu vv. vv * sin (uu / 2))) u v
      in (x, y, z))"

definition init :: "real \<Rightarrow> real \<Rightarrow> int \<Rightarrow> error + MobiusStrip" where
  "init R w n =
     bind_err (linspace 0 (2 * pi) n) (\<lambda>a.
     bind_err (linspace (- w / 2) (w / 2) n) (\<lambda>b.
       let (u, v) = meshgrid a b;
           (x, y, z) = compute_coordinates R u v
       in Inr \<lparr>self_R = R, self_w = w, self_n = n,
               self_u = u, self_v = v, self_x = x, self_y = y, self_z = z\<rparr>))"

text \<open>
  \<^verbatim>\<open>surface_area\<close>.  \<^verbatim>\<open>2 * np.pi / (self.n - 1)\<close> divides a Python float by a Python
  int and raises \<^verbatim>\<open>ZeroDivisionError\<close> when \<^verbatim>\<open>n = 1\<close>.
\<close>

definition surface_area :: "MobiusStrip \<Rightarrow> error + real" where
  "surface_area self =
     (if self_n self - 1 = 0 then Inl ZeroDivisionError
      else
        let du = 2 * pi / real_of_int (self_n self - 1);
            dv = self_w self / real_of_int (self_n self - 1)
        in
        bind_err (gradient (self_x self) 1) (\<lambda>xu.
        bind_err (gradient (self_x self) 0) (\<lambda>xv.
        bind_err (gradient (self_y self) 1) (\<lambda>yu.
        bind_err (gradient (self_y self) 0) (\<lambda>yv.
        bind_err (gradient (self_z self) 1) (\<lambda>zu.
        bind_err (gradient (self_z self) 0) (\<lambda>zv.
          let cross_x = arr_sub (arr_mul yu zv) (arr_mul zu yv);
              cross_y = arr_sub (arr_mul zu xv) (arr_mul xu zv);
              cross_z = arr_sub (arr_mul xu yv) (arr_mul yu xv);
              dA = arr_sqrt (arr_add (arr_add (arr_sq cross_x) (arr_sq cross_y)) (arr_sq cross_z))
          in Inr (np_sum dA * du * dv))))))))"

text \<open>
  \<^verbatim>\<open>edge_length\<close>, in two parts: the boundary points it samples (lines 60 to 65 of the
  source) and the chord sum over them (lines 67 to 72).
\<close>

definition edge_points :: "MobiusStrip \<Rightarrow> error + real list \<times> real list \<times> real list" where
  "edge_points self =
     bind_err (linspace 0 (2 * pi) (self_n self)) (\<lambda>u.
       let v = self_w self / 2;
           x = map (\<lambda>t. (self_R self + v * cos (t / 2)) * cos t) u;
           y = map (\<lambda>t. (self_R self + v * cos (t / 2)) * sin t) u;
           z = map (\<lambda>t. v * sin (t / 2)) u
       in Inr (x, y, z))"

definition edge_chords :: "real list \<times> real list \<times> real list \<Rightarrow> real list" where
  "edge_chords p =
     (case p of (x, y, z) \<Rightarrow>
        let dx = diff x; dy = diff y; dz = diff z
        in map (\<lambda>(a, b, c). sqrt (a\<^sup>2 + b\<^sup>2 + c\<^sup>2)) (zip dx (zip dy dz)))"

definition edge_length :: "MobiusStrip \<Rightarrow> error + real" where
  "edge_length self =
     bind_err (edge_points self) (\<lambda>p. Inr (2 * sum_list (edge_chords p)))"

section \<open>The specification's index-level reading\<close>

text \<open>
  The specification describes the arrays entry by entry.  The definitions of this
  section follow its words; the theorems further down compare them with the program.

  The samples: \<open>u_sample n j\<close> is the \<open>j\<close>-th of \<open>n\<close> angles linearly spaced over
  \<open>[0, 2\<pi>]\<close>, \<open>v_sample w n i\<close> the \<open>i\<close>-th of \<open>n\<close> offsets linearly spaced over
  \<open>[-w/2, w/2]\<close>.
\<close>

definition u_sample :: "int \<Rightarrow> nat \<Rightarrow> real" where
  "u_sample n j = 2 * pi * real j / real_of_int (n - 1)"

definition v_sample :: "real \<Rightarrow> int \<Rightarrow> nat \<Rightarrow> real" where
  "v_sample w n i = - w / 2 + real i * w / real_of_int (n - 1)"

text \<open>The M\"obius embedding of section 4.2 of the specification.\<close>

definition mobius_x :: "real \<Rightarrow> real \<Rightarrow> real \<Rightarrow> real" where
  "mobius_x R u v = (R + v * cos (u / 2)) * cos u"

definition mobius_y :: "real \<Rightarrow> real \<Rightarrow> real \<Rightarrow> real" where
  "mobius_y R u v = (R + v * cos (u / 2)) * sin u"

definition mobius_z :: "real \<Rightarrow> real \<Rightarrow> real" where
  "mobius_z u v = v * sin (u / 2)"

text \<open>
  The finite-difference scheme in index space: one-sided at both ends, central in
  between, for a sequence \<open>f 0, \<dots>, f (N - 1)\<close>.
\<close>

definition central_diff :: "(nat \<Rightarrow> real) \<Rightarrow> nat \<Rightarrow> nat \<Rightarrow> real" where
  "central_diff f N k =
     (if k = 0 then f 1 - f 0
      else if k = N - 1 then f (N - 1) - f (N - 2)
      else (f (k + 1) - f (k - 1)) / 2)"

text \<open>The magnitude of the cross product of two vectors.\<close>

definition cross_magnitude :: "real \<times> real \<times> real \<Rightarrow> real \<times> real \<times> real \<Rightarrow> real" where
  "cross_magnitude a b =
     (case a of (xu, yu, zu) \<Rightarrow> case b of (xv, yv, zv) \<Rightarrow>
        sqrt ((yu * zv - zu * yv)\<^sup>2 + (zu * xv - xu * zv)\<^sup>2 + (xu * yv - yu * xv)\<^sup>2))"

text \<open>
  \<open>spec_dA x y z N i j\<close>: the area element at row \<open>i\<close>, column \<open>j\<close> of \<open>N \<times> N\<close> grids
  given as functions of the two indices; the \<open>u\<close>-derivative runs along the column
  index, the \<open>v\<close>-derivative along the row index.
\<close>

definition spec_dA ::
  "(nat \<Rightarrow> nat \<Rightarrow> real) \<Rightarrow> (nat \<Rightarrow> nat \<Rightarrow> real) \<Rightarrow> (nat \<Rightarrow> nat \<Rightarrow> real) \<Rightarrow> nat \<Rightarrow> nat \<Rightarrow> nat \<Rightarrow> real" where
  "spec_dA x y z N i j =
     cross_magnitude
       (central_diff (\<lambda>c. x i c) N j, central_diff (\<lambda>c. y i c) N j, central_diff (\<lambda>c. z i c) N j)
       (central_diff (\<lambda>r. x r j) N i, central_diff (\<lambda>r. y r j) N i, central_diff (\<lambda>r. z r j) N i)"

definition spec_surface_area :: "MobiusStrip \<Rightarrow> real" where
  "spec_surface_area self =
     (let N = nat (self_n self);
          du = 2 * pi / real_of_int (self_n self - 1);
          dv = self_w self / real_of_int (self_n self - 1)
      in (\<Sum>i<N. \<Sum>j<N.
            spec_dA (\<lambda>r c. self_x self ! r ! c) (\<lambda>r c. self_y self ! r ! c)
                    (\<lambda>r c. self_z self ! r ! c) N i j) * du * dv)"

text \<open>
  The boundary curve of section 4.4: the embedding at \<open>v = w/2\<close> and the \<open>j\<close>-th angle
  sample, and the doubled sum of the chords between consecutive points.
\<close>

definition boundary_point :: "real \<Rightarrow> real \<Rightarrow> int \<Rightarrow> nat \<Rightarrow> real \<times> real \<times> real" where
  "boundary_point R w n j =
     (mobius_x R (u_sample n j) (w / 2), mobius_y R (u_sample n j) (w / 2),
      mobius_z (u_sample n j) (w / 2))"

definition chord :: "real \<times> real \<times> real \<Rightarrow> real \<times> real \<times> real \<Rightarrow> real" where
  "chord p q =
     (case p of (px, py, pz) \<Rightarrow> case q of (qx, qy, qz) \<Rightarrow>
        sqrt ((qx - px)\<^sup>2 + (qy - py)\<^sup>2 + (qz - pz)\<^sup>2))"

definition spec_edge_length :: "real \<Rightarrow> real \<Rightarrow> int \<Rightarrow> real" where
  "spec_edge_length R w n =
     2 * (\<Sum>i<nat n - 1. chord (boundary_point R w n i) (boundary_point R w n (i + 1)))"

section \<open>Arrays given entry by entry\<close>

text \<open>
  \<open>tab N M F\<close> is the array with \<open>N\<close> rows and \<open>M\<close> columns whose entry at \<open>(i, j)\<close> is
  \<open>F i j\<close>.  Every array of the program is shown to be of this form.
\<close>

definition tab :: "nat \<Rightarrow> nat \<Rightarrow> (nat \<Rightarrow> nat \<Rightarrow> 'a) \<Rightarrow> 'a list list" where
  "tab N M F = map (\<lambda>i. map (\<lambda>j. F i j) [0..<M]) [0..<N]"

text \<open>
  \<open>grid R w n\<close> is the object the constructor returns, written entry by entry; that
  the constructor returns it is the lemma \<open>init_grid\<close> below.
\<close>

definition grid :: "real \<Rightarrow> real \<Rightarrow> int \<Rightarrow> MobiusStrip" where
  "grid R w n =
     \<lparr>self_R = R, self_w = w, self_n = n,
      self_u = tab (nat n) (nat n) (\<lambda>i j. u_sample n j),
      self_v = tab (nat n) (nat n) (\<lambda>i j. v_sample w n i),
      self_x = tab (nat n) (nat n) (\<lambda>i j. mobius_x R (u_sample n j) (v_sample w n i)),
      self_y = tab (nat n) (nat n) (\<lambda>i j. mobius_y R (u_sample n j) (v_sample w n i)),
      self_z = tab (nat n) (nat n) (\<lambda>i j. mobius_z (u_sample n j) (v_sample w n i))\<rparr>"

section \<open>Objects and arrays in memory\<close>

text \<open>
  The methods above are functions of the values an object holds.  A Python object holds
  references: its array fields point to numpy arrays in memory, which a statement could
  overwrite in place, and a method could rebind any field.  To say what a call leaves
  behind, the two methods are translated a second time, statement by statement, over an
  explicit memory.

  The memory is a list of arrays, and a reference is a position in it.  The object keeps
  its three numbers and five references.
\<close>

datatype array = Arr1 "real list" | Arr2 "real list list"

type_synonym ref = nat

record MobiusStrip_obj =
  obj_R :: real
  obj_w :: real
  obj_n :: int
  obj_u :: ref
  obj_v :: ref
  obj_x :: ref
  obj_y :: ref
  obj_z :: ref

record memory =
  this :: MobiusStrip_obj
  heap :: "array list"

text \<open>
  A statement takes the memory and gives the value it computes, or the exception it
  raises, together with the memory it leaves.  \<open>bind_run\<close> is sequencing: an exception
  ends the run with the memory as it is then.
\<close>

type_synonym 'a run = "memory \<Rightarrow> (error + 'a) \<times> memory"

definition ret :: "'a \<Rightarrow> 'a run" where
  "ret a s = (Inr a, s)"

definition raise :: "error \<Rightarrow> 'a run" where
  "raise e s = (Inl e, s)"

definition lift_err :: "error + 'a \<Rightarrow> 'a run" where
  "lift_err r s = (r, s)"

definition bind_run :: "'a run \<Rightarrow> ('a \<Rightarrow> 'b run) \<Rightarrow> 'b run" where
  "bind_run m f s = (case m s of (Inl e, s') \<Rightarrow> (Inl e, s') | (Inr a, s') \<Rightarrow> f a s')"

text \<open>
  The steps a method body is made of.  \<open>self_field\<close> reads a field of \<^verbatim>\<open>self\<close>.
  \<open>new_array\<close> puts a result array into a new cell at the end of the memory and gives
  its reference.  \<open>load1\<close> and \<open>load2\<close> read the one- or two-dimensional array a
  reference points to; a reference that points to nothing, or to an array of the other
  rank, cannot arise for an object the constructor built, and reading it is answered
  with \<open>AxisError\<close> so that the step is total.
\<close>

definition get1 :: "array list \<Rightarrow> ref \<Rightarrow> real list option" where
  "get1 h r = (if r < length h then (case h ! r of Arr1 a \<Rightarrow> Some a | Arr2 _ \<Rightarrow> None) else None)"

definition get2 :: "array list \<Rightarrow> ref \<Rightarrow> real list list option" where
  "get2 h r = (if r < length h then (case h ! r of Arr2 a \<Rightarrow> Some a | Arr1 _ \<Rightarrow> None) else None)"

definition self_field :: "(MobiusStrip_obj \<Rightarrow> 'a) \<Rightarrow> 'a run" where
  "self_field f s = (Inr (f (this s)), s)"

definition new_array :: "array \<Rightarrow> ref run" where
  "new_array a s = (Inr (length (heap s)), s\<lparr>heap := heap s @ [a]\<rparr>)"

definition load1 :: "ref \<Rightarrow> real list run" where
  "load1 r s = (case get1 (heap s) r of Some a \<Rightarrow> (Inr a, s) | None \<Rightarrow> (Inl AxisError, s))"

definition load2 :: "ref \<Rightarrow> real list list run" where
  "load2 r s = (case get2 (heap s) r of Some a \<Rightarrow> (Inr a, s) | None \<Rightarrow> (Inl AxisError, s))"

text \<open>
  The numpy calls and the arithmetic statements of the two bodies.  Each reads its
  operands through their references and allocates one new array for its result, as
  \<^verbatim>\<open>np.linspace\<close>, \<^verbatim>\<open>np.gradient\<close>, \<^verbatim>\<open>np.diff\<close>, \<^verbatim>\<open>np.sqrt\<close> and the operators \<^verbatim>\<open>*\<close>,
  \<^verbatim>\<open>-\<close>, \<^verbatim>\<open>+\<close>, \<^verbatim>\<open>**\<close>, \<^verbatim>\<open>/\<close> on arrays do; the temporaries inside one right-hand side are
  out of reach once the statement ends and get no cell.  \<open>cross_run p q r t\<close> is
  \<^verbatim>\<open>p * q - r * t\<close>, \<open>magnitude_run\<close> is the statement for \<^verbatim>\<open>dA\<close>, \<open>chord_run\<close> the one for
  \<^verbatim>\<open>ds\<close>, \<open>map_run f\<close> an elementwise expression in one array.
\<close>

definition np_linspace_run :: "real \<Rightarrow> real \<Rightarrow> int \<Rightarrow> ref run" where
  "np_linspace_run start stop num =
     bind_run (lift_err (linspace start stop num)) (\<lambda>a. new_array (Arr1 a))"

definition np_gradient_run :: "ref \<Rightarrow> nat \<Rightarrow> ref run" where
  "np_gradient_run f axis =
     bind_run (load2 f) (\<lambda>a. bind_run (lift_err (gradient a axis)) (\<lambda>g. new_array (Arr2 g)))"

definition np_diff_run :: "ref \<Rightarrow> ref run" where
  "np_diff_run f = bind_run (load1 f) (\<lambda>a. new_array (Arr1 (diff a)))"

definition cross_run :: "ref \<Rightarrow> ref \<Rightarrow> ref \<Rightarrow> ref \<Rightarrow> ref run" where
  "cross_run p q r t =
     bind_run (load2 p) (\<lambda>a. bind_run (load2 q) (\<lambda>b.
     bind_run (load2 r) (\<lambda>c. bind_run (load2 t) (\<lambda>d.
       new_array (Arr2 (arr_sub (arr_mul a b) (arr_mul c d)))))))"

definition magnitude_run :: "ref \<Rightarrow> ref \<Rightarrow> ref \<Rightarrow> ref run" where
  "magnitude_run p q r =
     bind_run (load2 p) (\<lambda>a. bind_run (load2 q) (\<lambda>b. bind_run (load2 r) (\<lambda>c.
       new_array (Arr2 (arr_sqrt (arr_add (arr_add (arr_sq a) (arr_sq b)) (arr_sq c)))))))"

definition np_sum_run :: "ref \<Rightarrow> real run" where
  "np_sum_run f = bind_run (load2 f) (\<lambda>a. ret (np_sum a))"

definition map_run :: "(real \<Rightarrow> real) \<Rightarrow> ref \<Rightarrow> ref run" where
  "map_run f r = bind_run (load1 r) (\<lambda>a. new_array (Arr1 (map f a)))"

definition chord_run :: "ref \<Rightarrow> ref \<Rightarrow> ref \<Rightarrow> ref run" where
  "chord_run p q r =
     bind_run (load1 p) (\<lambda>dx. bind_run (load1 q) (\<lambda>dy. bind_run (load1 r) (\<lambda>dz.
       new_array (Arr1 (map (\<lambda>(a, b, c). sqrt (a\<^sup>2 + b\<^sup>2 + c\<^sup>2)) (zip dx (zip dy dz)))))))"

text \<open>
  \<^verbatim>\<open>surface_area\<close> and \<^verbatim>\<open>edge_length\<close>, one step per statement of lines 40 to 57 and 59
  to 72, in the order of the source.
\<close>

definition surface_area_run :: "real run" where
  "surface_area_run =
     bind_run (self_field obj_n) (\<lambda>n.
     if n - 1 = 0 then raise ZeroDivisionError
     else
       let du = 2 * pi / real_of_int (n - 1) in
       bind_run (self_field obj_w) (\<lambda>w.
       let dv = w / real_of_int (n - 1) in
       bind_run (self_field obj_x) (\<lambda>x. bind_run (np_gradient_run x 1) (\<lambda>xu.
       bind_run (self_field obj_x) (\<lambda>x. bind_run (np_gradient_run x 0) (\<lambda>xv.
       bind_run (self_field obj_y) (\<lambda>y. bind_run (np_gradient_run y 1) (\<lambda>yu.
       bind_run (self_field obj_y) (\<lambda>y. bind_run (np_gradient_run y 0) (\<lambda>yv.
       bind_run (self_field obj_z) (\<lambda>z. bind_run (np_gradient_run z 1) (\<lambda>zu.
       bind_run (self_field obj_z) (\<lambda>z. bind_run (np_gradient_run z 0) (\<lambda>zv.
       bind_run (cross_run yu zv zu yv) (\<lambda>cross_x.
       bind_run (cross_run zu xv xu zv) (\<lambda>cross_y.
       bind_run (cross_run xu yv yu xv) (\<lambda>cross_z.
       bind_run (magnitude_run cross_x cross_y cross_z) (\<lambda>dA.
       bind_run (np_sum_run dA) (\<lambda>t.
         ret (t * du * dv))))))))))))))))))))"

definition edge_length_run :: "real run" where
  "edge_length_run =
     bind_run (self_field obj_n) (\<lambda>n.
     bind_run (np_linspace_run 0 (2 * pi) n) (\<lambda>u.
     bind_run (self_field obj_w) (\<lambda>w.
     let v = w / 2 in
     bind_run (self_field obj_R) (\<lambda>R.
     bind_run (map_run (\<lambda>t. (R + v * cos (t / 2)) * cos t) u) (\<lambda>x.
     bind_run (map_run (\<lambda>t. (R + v * cos (t / 2)) * sin t) u) (\<lambda>y.
     bind_run (map_run (\<lambda>t. v * sin (t / 2)) u) (\<lambda>z.
     bind_run (np_diff_run x) (\<lambda>dx.
     bind_run (np_diff_run y) (\<lambda>dy.
     bind_run (np_diff_run z) (\<lambda>dz.
     bind_run (chord_run dx dy dz) (\<lambda>ds.
     bind_run (load1 ds) (\<lambda>a.
       ret (2 * sum_list a)))))))))))))"

text \<open>
  The constructor: the two \<^verbatim>\<open>linspace\<close> results, the two grids of \<^verbatim>\<open>meshgrid\<close> and the
  three coordinate arrays each get a new cell after those of the memory \<open>h\<close> it starts
  from, and the fields are bound to the last five.
\<close>

definition init_run :: "real \<Rightarrow> real \<Rightarrow> int \<Rightarrow> array list \<Rightarrow> error + memory" where
  "init_run R w n h =
     bind_err (linspace 0 (2 * pi) n) (\<lambda>a.
     bind_err (linspace (- w / 2) (w / 2) n) (\<lambda>b.
       let (u, v) = meshgrid a b;
           (x, y, z) = compute_coordinates R u v;
           k = length h
       in Inr \<lparr>this = \<lparr>obj_R = R, obj_w = w, obj_n = n, obj_u = k + 2, obj_v = k + 3,
                       obj_x = k + 4, obj_y = k + 5, obj_z = k + 6\<rparr>,
               heap = h @ [Arr1 a, Arr1 b, Arr2 u, Arr2 v, Arr2 x, Arr2 y, Arr2 z]\<rparr>))"

text \<open>
  \<open>view s\<close> is the object of the memory \<open>s\<close> with every reference replaced by the array
  it points to: the object as the first model has it.  \<open>extends s s'\<close> says that \<open>s'\<close>
  has the fields of \<open>s\<close> bound as they were and every cell of \<open>s\<close> with its content
  unchanged, possibly followed by new cells; \<open>frame m\<close> that the step \<open>m\<close> only ever
  extends the memory.
\<close>

definition view :: "memory \<Rightarrow> MobiusStrip option" where
  "view s =
     Option.bind (get2 (heap s) (obj_u (this s))) (\<lambda>u.
     Option.bind (get2 (heap s) (obj_v (this s))) (\<lambda>v.
     Option.bind (get2 (heap s) (obj_x (this s))) (\<lambda>x.
     Option.bind (get2 (heap s) (obj_y (this s))) (\<lambda>y.
     Option.bind (get2 (heap s) (obj_z (this s))) (\<lambda>z.
       Some \<lparr>self_R = obj_R (this s), self_w = obj_w (this s), self_n = obj_n (this s),
             self_u = u, self_v = v, self_x = x, self_y = y, self_z = z\<rparr>)))))"

definition extends :: "memory \<Rightarrow> memory \<Rightarrow> bool" where
  "extends s s' \<longleftrightarrow> this s' = this s \<and> take (length (heap s)) (heap s') = heap s"

definition frame :: "'a run \<Rightarrow> bool" where
  "frame m \<longleftrightarrow> (\<forall>s. extends s (snd (m s)))"

text \<open>The distance \<open>R + v\<cdot>cos(t/2)\<close> of a strip point from the axis, used in the estimates.\<close>

definition rho :: "real \<Rightarrow> real \<Rightarrow> real \<Rightarrow> real" where
  "rho R v t = R + v * cos (t / 2)"

section \<open>Facts about the numpy operations\<close>

lemma linspace_tab:
  assumes "0 \<le> num"
  shows "linspace a b num = Inr (map (\<lambda>j. a + real j * (b - a) / real_of_int (num - 1)) [0..<nat num])"
proof (cases "1 < num")
  case True
  have "(map (\<lambda>t. t + a) (map (\<lambda>j. real j * ((b - a) / real_of_int (num - 1))) [0..<nat num]))[nat num - 1 := b]
      = map (\<lambda>j. a + real j * (b - a) / real_of_int (num - 1)) [0..<nat num]"
  proof (rule nth_equalityI)
    show "length ((map (\<lambda>t. t + a) (map (\<lambda>j. real j * ((b - a) / real_of_int (num - 1))) [0..<nat num]))[nat num - 1 := b])
        = length (map (\<lambda>j. a + real j * (b - a) / real_of_int (num - 1)) [0..<nat num])"
      by simp
  next
    fix j
    assume "j < length ((map (\<lambda>t. t + a) (map (\<lambda>j. real j * ((b - a) / real_of_int (num - 1))) [0..<nat num]))[nat num - 1 := b])"
    then have j: "j < nat num" by simp
    have last: "real (nat num - 1) = real_of_int (num - 1)"
      using True by (simp add: of_nat_diff)
    show "(map (\<lambda>t. t + a) (map (\<lambda>j. real j * ((b - a) / real_of_int (num - 1))) [0..<nat num]))[nat num - 1 := b] ! j
        = map (\<lambda>j. a + real j * (b - a) / real_of_int (num - 1)) [0..<nat num] ! j"
    proof (cases "j = nat num - 1")
      case True
      with j last \<open>1 < num\<close> show ?thesis by (simp add: field_simps)
    next
      case False
      with j show ?thesis by (simp add: nth_list_update)
    qed
  qed
  with True show ?thesis by (simp add: linspace_def Let_def)
next
  case False
  with assms have "num = 0 \<or> num = 1" by linarith
  then show ?thesis
  proof
    assume "num = 0"
    then show ?thesis by (simp add: linspace_def Let_def)
  next
    assume "num = 1"
    then show ?thesis by (simp add: linspace_def Let_def)
  qed
qed

lemma map2_tab_row:
  "map2 f (map g [0..<M]) (map h [0..<M]) = map (\<lambda>j. f (g j) (h j)) [0..<M]"
  by (simp add: zip_map_map zip_same_conv_map)

lemma map2_tab:
  "map2 (map2 f) (tab N M F) (tab N M G) = tab N M (\<lambda>i j. f (F i j) (G i j))"
  by (simp add: tab_def zip_map_map zip_same_conv_map)

lemma arr_mul_tab: "arr_mul (tab N M F) (tab N M G) = tab N M (\<lambda>i j. F i j * G i j)"
  by (simp add: arr_mul_def map2_tab)

lemma arr_sub_tab: "arr_sub (tab N M F) (tab N M G) = tab N M (\<lambda>i j. F i j - G i j)"
  by (simp add: arr_sub_def map2_tab)

lemma arr_add_tab: "arr_add (tab N M F) (tab N M G) = tab N M (\<lambda>i j. F i j + G i j)"
  by (simp add: arr_add_def map2_tab)

lemma arr_sq_tab: "arr_sq (tab N M F) = tab N M (\<lambda>i j. (F i j)\<^sup>2)"
  by (simp add: arr_sq_def tab_def)

lemma arr_sqrt_tab: "arr_sqrt (tab N M F) = tab N M (\<lambda>i j. sqrt (F i j))"
  by (simp add: arr_sqrt_def tab_def)

lemma sum_list_upt0: "sum_list (map f [0..<N]) = (\<Sum>i<N. f i)"
  by (simp add: interv_sum_list_conv_sum_set_nat atLeast0LessThan)

lemma np_sum_tab: "np_sum (tab N M F) = (\<Sum>i<N. \<Sum>j<M. F i j)"
  by (simp add: np_sum_def tab_def comp_def sum_list_upt0)

lemma tab_nth: "i < N \<Longrightarrow> j < M \<Longrightarrow> tab N M F ! i ! j = F i j"
  by (simp add: tab_def)

lemma length_tab: "length (tab N M F) = N"
  by (simp add: tab_def)

lemma length_tab_row: "i < N \<Longrightarrow> length (tab N M F ! i) = M"
  by (simp add: tab_def)

lemma gradient_along_row:
  assumes "2 \<le> M"
  shows "gradient_along (-) (\<lambda>t. t / 2) (map g [0..<M]) = map (\<lambda>j. central_diff g M j) [0..<M]"
  using assms by (auto simp: gradient_along_def central_diff_def Let_def)

lemma ncols_tab: "0 < N \<Longrightarrow> ncols (tab N M F) = M"
  by (simp add: ncols_def tab_def upt_conv_Cons)

lemma gradient_axis1_tab:
  assumes "2 \<le> M" "0 < N"
  shows "gradient (tab N M F) (Suc 0) = Inr (tab N M (\<lambda>i j. central_diff (\<lambda>j. F i j) M j))"
  using assms by (simp add: gradient_def ncols_tab) (simp add: tab_def gradient_along_row)

lemma gradient_axis0_tab:
  assumes "2 \<le> N"
  shows "gradient (tab N M F) 0 = Inr (tab N M (\<lambda>i j. central_diff (\<lambda>i. F i j) N i))"
  using assms
  by (auto simp: gradient_def length_tab gradient_along_def Let_def tab_def central_diff_def map2_tab_row)

lemma meshgrid_tab:
  "meshgrid (map U [0..<M]) (map V [0..<N]) = (tab N M (\<lambda>i j. U j), tab N M (\<lambda>i j. V i))"
  by (simp add: meshgrid_def tab_def map_replicate_const comp_def)

lemma compute_coordinates_tab:
  "compute_coordinates R (tab N M U) (tab N M V) =
     (tab N M (\<lambda>i j. mobius_x R (U i j) (V i j)),
      tab N M (\<lambda>i j. mobius_y R (U i j) (V i j)),
      tab N M (\<lambda>i j. mobius_z (U i j) (V i j)))"
  by (simp add: compute_coordinates_def Let_def map2_tab mobius_x_def mobius_y_def mobius_z_def)

lemma linspace_u: "0 \<le> n \<Longrightarrow> linspace 0 (2 * pi) n = Inr (map (u_sample n) [0..<nat n])"
  by (simp add: linspace_tab u_sample_def)

lemma linspace_v: "0 \<le> n \<Longrightarrow> linspace (- (w / 2)) (w / 2) n = Inr (map (v_sample w n) [0..<nat n])"
  by (simp add: linspace_tab v_sample_def)

lemma init_grid: "0 \<le> n \<Longrightarrow> init R w n = Inr (grid R w n)"
  by (simp add: init_def bind_err_def linspace_u linspace_v meshgrid_tab compute_coordinates_tab grid_def)

lemma init_neg: "n < 0 \<Longrightarrow> init R w n = Inl ValueError"
  by (simp add: init_def bind_err_def linspace_def)

lemma init_Inr: "init R w n = Inr self \<Longrightarrow> 0 \<le> n \<and> self = grid R w n"
  by (cases "n < 0") (simp_all add: init_grid init_neg)

lemma central_diff_cong:
  assumes "\<And>m. m < N \<Longrightarrow> f m = g m" and "2 \<le> N" and "k < N"
  shows "central_diff f N k = central_diff g N k"
  using assms by (simp add: central_diff_def)

lemma surface_area_grid:
  assumes "2 \<le> n"
  shows "surface_area (grid R w n) =
     Inr ((\<Sum>i<nat n. \<Sum>j<nat n.
            spec_dA (\<lambda>i j. mobius_x R (u_sample n j) (v_sample w n i))
                    (\<lambda>i j. mobius_y R (u_sample n j) (v_sample w n i))
                    (\<lambda>i j. mobius_z (u_sample n j) (v_sample w n i)) (nat n) i j)
          * (2 * pi / real_of_int (n - 1)) * (w / real_of_int (n - 1)))"
proof -
  from assms have N: "2 \<le> nat n" "0 < nat n" and n1: "n - 1 \<noteq> 0" by simp_all
  show ?thesis
    using n1
    by (simp add: surface_area_def grid_def bind_err_def Let_def
        gradient_axis1_tab [OF N] gradient_axis0_tab [OF N(1)]
        arr_mul_tab arr_sub_tab arr_add_tab arr_sq_tab arr_sqrt_tab np_sum_tab
        spec_dA_def cross_magnitude_def)
qed

lemma spec_surface_area_grid:
  assumes "2 \<le> n"
  shows "spec_surface_area (grid R w n) =
     (\<Sum>i<nat n. \<Sum>j<nat n.
            spec_dA (\<lambda>i j. mobius_x R (u_sample n j) (v_sample w n i))
                    (\<lambda>i j. mobius_y R (u_sample n j) (v_sample w n i))
                    (\<lambda>i j. mobius_z (u_sample n j) (v_sample w n i)) (nat n) i j)
          * (2 * pi / real_of_int (n - 1)) * (w / real_of_int (n - 1))"
proof -
  from assms have N: "2 \<le> nat n" by simp
  have "spec_dA (\<lambda>r c. self_x (grid R w n) ! r ! c) (\<lambda>r c. self_y (grid R w n) ! r ! c)
                (\<lambda>r c. self_z (grid R w n) ! r ! c) (nat n) i j
      = spec_dA (\<lambda>i j. mobius_x R (u_sample n j) (v_sample w n i))
                (\<lambda>i j. mobius_y R (u_sample n j) (v_sample w n i))
                (\<lambda>i j. mobius_z (u_sample n j) (v_sample w n i)) (nat n) i j"
    if "i < nat n" "j < nat n" for i j
    unfolding spec_dA_def
    using that N
    by (intro arg_cong2 [where f = cross_magnitude] arg_cong2 [where f = Pair] central_diff_cong)
       (simp_all add: grid_def tab_nth)
  then show ?thesis
    by (simp add: spec_surface_area_def Let_def grid_def [of R w n, THEN arg_cong [where f = self_n]]
        grid_def [of R w n, THEN arg_cong [where f = self_w]])
qed

lemma diff_tab: "diff (map f [0..<N]) = map (\<lambda>i. f (i + 1) - f i) [0..<N - 1]"
proof (rule nth_equalityI)
  show "length (diff (map f [0..<N])) = length (map (\<lambda>i. f (i + 1) - f i) [0..<N - 1])"
    by (simp add: diff_def)
next
  fix i
  assume "i < length (diff (map f [0..<N]))"
  then have i: "i < N - 1" by (simp add: diff_def)
  then show "diff (map f [0..<N]) ! i = map (\<lambda>i. f (i + 1) - f i) [0..<N - 1] ! i"
    by (simp add: diff_def nth_tl nth_butlast)
qed

lemma edge_points_grid:
  assumes "0 \<le> n"
  shows "edge_points (grid R w n) =
     Inr (map (\<lambda>j. mobius_x R (u_sample n j) (w / 2)) [0..<nat n],
          map (\<lambda>j. mobius_y R (u_sample n j) (w / 2)) [0..<nat n],
          map (\<lambda>j. mobius_z (u_sample n j) (w / 2)) [0..<nat n])"
  using assms
  by (simp add: edge_points_def grid_def linspace_u bind_err_def Let_def comp_def
      mobius_x_def mobius_y_def mobius_z_def)

lemma edge_chords_tab:
  "edge_chords (map X [0..<N], map Y [0..<N], map Z [0..<N]) =
     map (\<lambda>i. sqrt ((X (i + 1) - X i)\<^sup>2 + (Y (i + 1) - Y i)\<^sup>2 + (Z (i + 1) - Z i)\<^sup>2)) [0..<N - 1]"
  by (simp add: edge_chords_def diff_tab Let_def zip_map_map zip_same_conv_map)

lemma edge_length_grid:
  assumes "0 \<le> n"
  shows "edge_length (grid R w n) = Inr (spec_edge_length R w n)"
  using assms
  by (simp add: edge_length_def edge_points_grid bind_err_def edge_chords_tab sum_list_upt0
      spec_edge_length_def boundary_point_def chord_def)

section \<open>Concrete runs\<close>

lemma lessThan3: "{..<3::nat} = {0, 1, 2}" and lessThan2: "{..<2::nat} = {0, 1}"
  by auto

lemma surface_area_3: "surface_area (grid 1 1 3) = Inr (3 * pi / 4)"
  by (simp add: surface_area_grid spec_dA_def cross_magnitude_def central_diff_def
      u_sample_def v_sample_def mobius_x_def mobius_y_def mobius_z_def lessThan3)

lemma edge_length_3: "edge_length (grid 1 1 3) = Inr (2 * (sqrt (13 / 2) + sqrt (5 / 2)))"
  by (simp add: edge_length_grid spec_edge_length_def boundary_point_def chord_def
      u_sample_def mobius_x_def mobius_y_def mobius_z_def lessThan2 power2_eq_square)

lemma v_sample_last: "2 \<le> n \<Longrightarrow> v_sample w n (nat n - Suc 0) = w / 2"
  by (simp add: v_sample_def of_nat_diff field_simps)

lemma u_sample_first: "u_sample n 0 = 0"
  by (simp add: u_sample_def)

lemma u_sample_last: "2 \<le> n \<Longrightarrow> u_sample n (nat n - Suc 0) = 2 * pi"
  by (simp add: u_sample_def of_nat_diff)

section \<open>The grids and the two formulas\<close>

text \<open>
  Claim C4.  The grids the constructor caches all have \<open>n\<close> rows of \<open>n\<close> entries, and
  for all row and column indices \<open>i, j < n\<close>: \<open>u[i][j]\<close> is the angle sample
  \<open>2\<pi>j/(n-1)\<close> (the same down each column), \<open>v[i][j]\<close> is the width sample
  \<open>-w/2 + i\<cdot>w/(n-1)\<close> (the same along each row), and \<open>x\<close>, \<open>y\<close>, \<open>z\<close> are the
  M\"obius embedding of the two.  For \<open>n = 1\<close> the only indices are \<open>i = j = 0\<close>, where
  both quotients are \<open>0/0\<close> and read as 0.
\<close>

theorem grid_entries:
  assumes "init R w n = Inr self" and "i < nat n" and "j < nat n"
  shows "length (self_x self) = nat n \<and> length (self_x self ! i) = nat n
       \<and> length (self_y self) = nat n \<and> length (self_y self ! i) = nat n
       \<and> length (self_z self) = nat n \<and> length (self_z self ! i) = nat n
       \<and> self_u self ! i ! j = 2 * pi * real j / real_of_int (n - 1)
       \<and> self_v self ! i ! j = - w / 2 + real i * w / real_of_int (n - 1)
       \<and> self_x self ! i ! j = (R + self_v self ! i ! j * cos (self_u self ! i ! j / 2)) * cos (self_u self ! i ! j)
       \<and> self_y self ! i ! j = (R + self_v self ! i ! j * cos (self_u self ! i ! j / 2)) * sin (self_u self ! i ! j)
       \<and> self_z self ! i ! j = self_v self ! i ! j * sin (self_u self ! i ! j / 2)"
proof -
  from assms(1) have s: "self = grid R w n" by (simp add: init_Inr)
  show ?thesis
    using assms(2,3) unfolding s
    by (simp add: grid_def tab_nth length_tab length_tab_row u_sample_def v_sample_def
        mobius_x_def mobius_y_def mobius_z_def)
qed

theorem grid_entries_witness:
  "init 1 1 3 = Inr (grid 1 1 3) \<and> (2::nat) < nat 3 \<and> (1::nat) < nat 3
   \<and> self_u (grid 1 1 3) ! 2 ! 1 = pi \<and> self_v (grid 1 1 3) ! 2 ! 1 = 1 / 2
   \<and> self_x (grid 1 1 3) ! 2 ! 1 = - 1 \<and> self_y (grid 1 1 3) ! 2 ! 1 = 0
   \<and> self_z (grid 1 1 3) ! 2 ! 1 = 1 / 2"
proof -
  have h: "init 1 1 3 = Inr (grid 1 1 3)" by (simp add: init_grid)
  have i: "(2::nat) < nat 3" and j: "(1::nat) < nat 3" by simp_all
  from grid_entries [OF h i j] h show ?thesis by simp
qed

text \<open>
  Claim C3.  For an object built with \<open>n \<ge> 2\<close>, \<^verbatim>\<open>surface_area\<close> returns the sum over
  all grid points of the magnitude of the cross product of the two tangent fields,
  times \<open>du = 2\<pi>/(n-1)\<close> and \<open>dv = w/(n-1)\<close>; the six derivative arrays are
  differences in index space (central inside, one-sided at both ends), the
  \<open>u\<close>-derivative along the column index and the \<open>v\<close>-derivative along the row index.
\<close>

theorem surface_area_formula:
  assumes "init R w n = Inr self" and "2 \<le> n"
  shows "surface_area self = Inr (spec_surface_area self)"
proof -
  from assms(1) have "self = grid R w n" by (simp add: init_Inr)
  with assms(2) show ?thesis
    by (simp add: surface_area_grid spec_surface_area_grid)
qed

theorem surface_area_formula_witness:
  "init 1 1 3 = Inr (grid 1 1 3) \<and> (2::int) \<le> 3
   \<and> surface_area (grid 1 1 3) = Inr (spec_surface_area (grid 1 1 3))
   \<and> spec_surface_area (grid 1 1 3) = 3 * pi / 4"
proof -
  have h: "init 1 1 3 = Inr (grid 1 1 3)" by (simp add: init_grid)
  have "surface_area (grid 1 1 3) = Inr (spec_surface_area (grid 1 1 3))"
    using surface_area_formula [OF h] by simp
  with h surface_area_3 show ?thesis by simp
qed

text \<open>
  Claim C5.  \<^verbatim>\<open>edge_length\<close> returns twice the sum, over \<open>i = 0, \<dots>, n - 2\<close>, of the
  distance between the \<open>i\<close>-th and the \<open>(i+1)\<close>-th point of the embedding at
  \<open>v = w/2\<close> and the \<open>n\<close> angle samples over \<open>[0, 2\<pi>]\<close>.
\<close>

theorem edge_length_formula:
  assumes "init R w n = Inr self"
  shows "edge_length self = Inr (spec_edge_length R w n)"
proof -
  from assms have "0 \<le> n" "self = grid R w n" by (simp_all add: init_Inr)
  then show ?thesis by (simp add: edge_length_grid)
qed

theorem edge_length_formula_witness:
  "init 1 1 3 = Inr (grid 1 1 3)
   \<and> edge_length (grid 1 1 3) = Inr (spec_edge_length 1 1 3)
   \<and> spec_edge_length 1 1 3 = 2 * (sqrt (13 / 2) + sqrt (5 / 2))"
proof -
  have h: "init 1 1 3 = Inr (grid 1 1 3)" by (simp add: init_grid)
  from edge_length_formula [OF h] edge_length_3 h show ?thesis by simp
qed

text \<open>
  Claim C9.  For an object built with \<open>n \<ge> 2\<close> and every \<open>j < n\<close>, the \<open>j\<close>-th
  boundary point that \<^verbatim>\<open>edge_length\<close> samples is entry \<open>j\<close> of the last row of the
  cached grids.
\<close>

theorem edge_points_last_row:
  assumes "init R w n = Inr self" and "2 \<le> n" and "j < nat n"
  shows "\<exists>px py pz. edge_points self = Inr (px, py, pz)
       \<and> length px = nat n \<and> length py = nat n \<and> length pz = nat n
       \<and> (px ! j, py ! j, pz ! j) = boundary_point R w n j
       \<and> px ! j = self_x self ! (nat n - 1) ! j
       \<and> py ! j = self_y self ! (nat n - 1) ! j
       \<and> pz ! j = self_z self ! (nat n - 1) ! j"
proof -
  from assms(1) have s: "self = grid R w n" and n: "0 \<le> n" by (simp_all add: init_Inr)
  from assms(2) have l: "nat n - 1 < nat n" by simp
  show ?thesis
    unfolding s edge_points_grid [OF n]
    using assms(2,3) l
    by (simp add: grid_def tab_nth v_sample_last boundary_point_def)
qed

theorem edge_points_last_row_witness:
  "init 1 1 3 = Inr (grid 1 1 3) \<and> (2::int) \<le> 3 \<and> (1::nat) < nat 3
   \<and> edge_points (grid 1 1 3) = Inr ([3 / 2, - 1, 1 / 2], [0, 0, 0], [0, 1 / 2, 0])
   \<and> self_x (grid 1 1 3) ! (nat 3 - 1) ! 1 = - 1
   \<and> self_y (grid 1 1 3) ! (nat 3 - 1) ! 1 = 0
   \<and> self_z (grid 1 1 3) ! (nat 3 - 1) ! 1 = 1 / 2"
proof -
  have h: "init 1 1 3 = Inr (grid 1 1 3)" by (simp add: init_grid)
  have j: "(1::nat) < nat 3" by simp
  have p: "edge_points (grid 1 1 3) = Inr ([3 / 2, - 1, 1 / 2], [0, 0, 0], [0, 1 / 2, 0])"
    by (simp add: edge_points_grid u_sample_def mobius_x_def mobius_y_def mobius_z_def upt_rec)
  from edge_points_last_row [OF h _ j] p h show ?thesis by auto
qed

lemma chord_x_axis: "chord (a, 0, 0) (b, 0, 0) = \<bar>b - a\<bar>"
  by (simp add: chord_def)

lemma edge_chords_nth:
  "edge_chords (map X [0..<N], map Y [0..<N], map Z [0..<N]) =
     map (\<lambda>i. chord (map X [0..<N] ! i, map Y [0..<N] ! i, map Z [0..<N] ! i)
                     (map X [0..<N] ! (i + 1), map Y [0..<N] ! (i + 1), map Z [0..<N] ! (i + 1)))
         [0..<N - 1]"
  unfolding edge_chords_tab
  by (rule map_cong) (simp_all add: chord_def)

lemma surface_area_3_scaled: "surface_area (grid 2 2 3) = Inr (6 * pi)"
  by (simp add: surface_area_grid spec_dA_def cross_magnitude_def central_diff_def
      u_sample_def v_sample_def mobius_x_def mobius_y_def mobius_z_def lessThan3)

section \<open>Chords of the boundary curve, continuity in the width\<close>

lemma planar_chord:
  fixes r s a b :: real
  shows "(r * cos b - s * cos a)\<^sup>2 + (r * sin b - s * sin a)\<^sup>2
     = (r - s)\<^sup>2 + 4 * r * s * (sin ((b - a) / 2))\<^sup>2"
proof -
  define ca cb sa sb where "ca = cos a" and "cb = cos b" and "sa = sin a" and "sb = sin b"
  have one: "ca\<^sup>2 + sa\<^sup>2 = 1" "cb\<^sup>2 + sb\<^sup>2 = 1"
    by (simp_all add: ca_def cb_def sa_def sb_def)
  have "(r * cb - s * ca)\<^sup>2 + (r * sb - s * sa)\<^sup>2
      = r\<^sup>2 * (cb\<^sup>2 + sb\<^sup>2) + s\<^sup>2 * (ca\<^sup>2 + sa\<^sup>2) - 2 * r * s * (cb * ca + sb * sa)"
    by (simp add: power2_eq_square algebra_simps)
  also have "\<dots> = r\<^sup>2 + s\<^sup>2 - 2 * r * s * (cb * ca + sb * sa)"
    by (simp add: one)
  also have "cb * ca + sb * sa = cos (b - a)"
    by (simp add: cos_diff ca_def cb_def sa_def sb_def)
  also have "cos (b - a) = 1 - 2 * (sin ((b - a) / 2))\<^sup>2"
  proof -
    have d: "2 * ((b - a) / 2) = b - a" by simp
    show ?thesis using cos_double_sin [of "(b - a) / 2"] unfolding d .
  qed
  finally show ?thesis
    unfolding ca_def cb_def sa_def sb_def
    by (simp add: power2_eq_square algebra_simps)
qed

lemma unit_chord:
  fixes a b :: real
  shows "(cos b - cos a)\<^sup>2 + (sin b - sin a)\<^sup>2 = 4 * (sin ((b - a) / 2))\<^sup>2"
  using planar_chord [of 1 b 1 a] by simp

lemma chord_sq:
  "(chord (mobius_x R a v, mobius_y R a v, mobius_z a v) (mobius_x R b v, mobius_y R b v, mobius_z b v))\<^sup>2
     = 4 * v\<^sup>2 * (sin ((b - a) / 4))\<^sup>2 + 4 * rho R v a * rho R v b * (sin ((b - a) / 2))\<^sup>2"
proof -
  define A where "A = cos (b / 2) - cos (a / 2)"
  define B where "B = sin (b / 2) - sin (a / 2)"
  have xy: "(rho R v b * cos b - rho R v a * cos a)\<^sup>2 + (rho R v b * sin b - rho R v a * sin a)\<^sup>2
      = (rho R v b - rho R v a)\<^sup>2 + 4 * rho R v b * rho R v a * (sin ((b - a) / 2))\<^sup>2"
    by (rule planar_chord)
  have AB: "A\<^sup>2 + B\<^sup>2 = 4 * (sin ((b - a) / 4))\<^sup>2"
  proof -
    have d: "(b / 2 - a / 2) / 2 = (b - a) / 4" by argo
    show ?thesis unfolding A_def B_def using unit_chord [of "b / 2" "a / 2"] unfolding d .
  qed
  have "rho R v b - rho R v a = v * A" "v * sin (b / 2) - v * sin (a / 2) = v * B"
    by (simp_all add: rho_def A_def B_def algebra_simps)
  then have "(rho R v b - rho R v a)\<^sup>2 + (v * sin (b / 2) - v * sin (a / 2))\<^sup>2 = v\<^sup>2 * (A\<^sup>2 + B\<^sup>2)"
    by (simp add: power_mult_distrib distrib_left)
  then have z: "(rho R v b - rho R v a)\<^sup>2 + (v * sin (b / 2) - v * sin (a / 2))\<^sup>2
      = 4 * v\<^sup>2 * (sin ((b - a) / 4))\<^sup>2"
    by (simp add: AB)
  have "(chord (mobius_x R a v, mobius_y R a v, mobius_z a v) (mobius_x R b v, mobius_y R b v, mobius_z b v))\<^sup>2
      = (rho R v b * cos b - rho R v a * cos a)\<^sup>2 + (rho R v b * sin b - rho R v a * sin a)\<^sup>2
        + (v * sin (b / 2) - v * sin (a / 2))\<^sup>2"
    by (simp add: chord_def mobius_x_def mobius_y_def mobius_z_def rho_def)
  also have "\<dots> = ((rho R v b - rho R v a)\<^sup>2 + (v * sin (b / 2) - v * sin (a / 2))\<^sup>2)
        + 4 * rho R v a * rho R v b * (sin ((b - a) / 2))\<^sup>2"
    by (simp only: xy) simp
  finally show ?thesis by (simp only: z)
qed

lemma chord_nonneg: "0 \<le> chord p q"
  by (cases p, cases q) (simp add: chord_def)

lemma u_sample_step: "u_sample n (i + 1) - u_sample n i = 2 * pi / real_of_int (n - 1)"
  by (simp add: u_sample_def algebra_simps add_divide_distrib)

lemma isCont_central_diff:
  assumes "\<And>k. isCont (\<lambda>w. f w k) a"
  shows "isCont (\<lambda>w. central_diff (f w) N j) a"
  unfolding central_diff_def
  by (cases "j = 0"; cases "j = N - 1"; simp; intro continuous_intros assms; simp)

lemma isCont_edge: "isCont (\<lambda>w. spec_edge_length R w n) a"
  unfolding spec_edge_length_def chord_def boundary_point_def mobius_x_def mobius_y_def mobius_z_def
  by (simp, intro continuous_intros) simp_all


lemma cos_lower: "1 - x\<^sup>2 / 2 \<le> cos (x::real)"
proof -
  have d: "2 * (x / 2) = x" by simp
  have c: "cos x = 1 - 2 * (sin (x / 2))\<^sup>2"
    using cos_double_sin [of "x / 2"] unfolding d .
  have "\<bar>sin (x / 2)\<bar> \<le> \<bar>x / 2\<bar>" by (rule abs_sin_x_le_abs_x)
  then have "(sin (x / 2))\<^sup>2 \<le> (x / 2)\<^sup>2" by (simp only: abs_le_square_iff)
  then show ?thesis unfolding c by (simp add: power2_eq_square)
qed

lemma sin_lower:
  assumes "0 \<le> (x::real)"
  shows "x - x ^ 3 / 6 \<le> sin x"
proof -
  define g where "g = (\<lambda>t::real. sin t - t + t ^ 3 / 6)"
  have "g 0 \<le> g x"
  proof (rule DERIV_nonneg_imp_nondecreasing [OF assms])
    fix t :: real
    have "(g has_real_derivative (cos t - 1 + t\<^sup>2 / 2)) (at t)"
      unfolding g_def by (auto intro!: derivative_eq_intros simp: power2_eq_square)
    moreover have "0 \<le> cos t - 1 + t\<^sup>2 / 2" using cos_lower [of t] by simp
    ultimately show "\<exists>y. (g has_real_derivative y) (at t) \<and> 0 \<le> y" by blast
  qed
  then show ?thesis by (simp add: g_def)
qed

lemma polygon_le_circle:
  assumes "2 \<le> n" and "0 \<le> R"
  shows "4 * real_of_int (n - 1) * R * sin (pi / real_of_int (n - 1)) \<le> 2 * (2 * pi * R)"
proof -
  from assms(1) have p: "0 < real_of_int (n - 1)" by simp
  then have "sin (pi / real_of_int (n - 1)) \<le> pi / real_of_int (n - 1)"
    by (intro sin_x_le_x) simp
  then have "real_of_int (n - 1) * sin (pi / real_of_int (n - 1)) \<le> pi"
    using p by (simp add: field_simps)
  then have "4 * R * (real_of_int (n - 1) * sin (pi / real_of_int (n - 1))) \<le> 4 * R * pi"
    using assms(2) by (intro mult_left_mono) simp_all
  then show ?thesis by (simp add: algebra_simps)
qed

lemma chord_degenerate:
  assumes "2 \<le> n"
  shows "chord (boundary_point R 0 n i) (boundary_point R 0 n (Suc i))
       = 2 * \<bar>R\<bar> * sin (pi / real_of_int (n - 1))"
proof -
  from assms have p: "0 < real_of_int (n - 1)" "1 \<le> real_of_int (n - 1)" by simp_all
  have h: "(u_sample n (Suc i) - u_sample n i) / 2 = pi / real_of_int (n - 1)"
    using u_sample_step [of n i] p by (simp add: field_simps)
  have "pi / real_of_int (n - 1) \<le> pi"
    using p by (simp add: field_simps)
  then have s: "0 \<le> sin (pi / real_of_int (n - 1))"
    using p by (intro sin_ge_zero) simp_all
  have "(chord (boundary_point R 0 n i) (boundary_point R 0 n (Suc i)))\<^sup>2
      = 4 * R\<^sup>2 * (sin (pi / real_of_int (n - 1)))\<^sup>2"
    unfolding boundary_point_def chord_sq h
    by (simp add: rho_def power2_eq_square)
  also have "\<dots> = (2 * \<bar>R\<bar> * sin (pi / real_of_int (n - 1)))\<^sup>2"
    by (simp add: power_mult_distrib)
  finally have "(chord (boundary_point R 0 n i) (boundary_point R 0 n (Suc i)))\<^sup>2
      = (2 * \<bar>R\<bar> * sin (pi / real_of_int (n - 1)))\<^sup>2" .
  then show ?thesis
    using s by (simp add: chord_nonneg power2_eq_iff_nonneg del: of_int_diff)
qed

lemma spec_edge_length_degenerate:
  assumes "2 \<le> n"
  shows "spec_edge_length R 0 n = 4 * real_of_int (n - 1) * \<bar>R\<bar> * sin (pi / real_of_int (n - 1))"
proof -
  from assms have "real (nat n - 1) = real_of_int (n - 1)" by (simp add: of_nat_diff)
  then show ?thesis
    by (simp add: spec_edge_length_def chord_degenerate [OF assms] del: of_int_diff)
qed

lemma isCont_surface:
  assumes "2 \<le> n"
  shows "isCont (\<lambda>w. (\<Sum>i<N. \<Sum>j<N.
            spec_dA (\<lambda>i j. mobius_x R (u_sample n j) (v_sample w n i))
                    (\<lambda>i j. mobius_y R (u_sample n j) (v_sample w n i))
                    (\<lambda>i j. mobius_z (u_sample n j) (v_sample w n i)) N i j)
          * (2 * pi / real_of_int (n - 1)) * (w / real_of_int (n - 1))) a"
proof -
  from assms have nz: "real_of_int (n - 1) \<noteq> 0" by simp
  have x: "isCont (\<lambda>w. mobius_x R t (v_sample w n i)) a"
    and y: "isCont (\<lambda>w. mobius_y R t (v_sample w n i)) a"
    and z: "isCont (\<lambda>w. mobius_z t (v_sample w n i)) a" for t i
    unfolding mobius_x_def mobius_y_def mobius_z_def v_sample_def
    using nz by (intro continuous_intros; simp)+
  show ?thesis
    unfolding spec_dA_def cross_magnitude_def prod.case
    using nz by (intro continuous_intros isCont_central_diff x y z) simp_all
qed

lemma isCont_at_right: "isCont f (a::real) \<Longrightarrow> (f \<longlongrightarrow> f a) (at_right a)"
  by (simp add: continuous_within [symmetric] continuous_at_imp_continuous_at_within)

section \<open>The open boundary sample\<close>

text \<open>
  Claim C10, as amended.  For an object built with \<open>n \<ge> 2\<close> the boundary sample of
  \<^verbatim>\<open>edge_length\<close> starts at \<open>(R + w/2, 0, 0)\<close> and ends at \<open>(R - w/2, 0, 0)\<close>, two points
  at distance \<open>\<bar>w\<bar>\<close>.  The chords summed are those between samples \<open>i\<close> and \<open>i + 1\<close>
  for \<open>i < n - 1\<close>; the pair of the first and the last sample is among them exactly
  when \<open>n = 2\<close>, so for \<open>n \<ge> 3\<close> no chord between the two end points enters the sum.
\<close>

theorem edge_not_closed:
  assumes "init R w n = Inr self" and "2 \<le> n"
  shows "\<exists>px py pz. edge_points self = Inr (px, py, pz)
       \<and> (px ! 0, py ! 0, pz ! 0) = (R + w / 2, 0, 0)
       \<and> (px ! (nat n - 1), py ! (nat n - 1), pz ! (nat n - 1)) = (R - w / 2, 0, 0)
       \<and> chord (R + w / 2, 0, 0) (R - w / 2, 0, 0) = \<bar>w\<bar>
       \<and> edge_chords (px, py, pz) =
           map (\<lambda>i. chord (px ! i, py ! i, pz ! i) (px ! (i + 1), py ! (i + 1), pz ! (i + 1)))
             [0..<nat n - 1]
       \<and> edge_length self = Inr (2 * sum_list (edge_chords (px, py, pz)))
       \<and> ((\<exists>i<nat n - 1. (i, i + 1) = (0, nat n - 1)) \<longleftrightarrow> n = 2)"
proof -
  from assms(1) have s: "self = grid R w n" and n: "0 \<le> n" by (simp_all add: init_Inr)
  from assms(2) have l: "nat n - 1 < nat n" "0 < nat n" by simp_all
  have pairs: "(\<exists>i<nat n - 1. (i, i + 1) = (0, nat n - 1)) \<longleftrightarrow> n = 2"
    using assms(2) by auto
  have ends: "mobius_x R (u_sample n 0) (w / 2) = R + w / 2"
    "mobius_y R (u_sample n 0) (w / 2) = 0" "mobius_z (u_sample n 0) (w / 2) = 0"
    "mobius_x R (u_sample n (nat n - Suc 0)) (w / 2) = R - w / 2"
    "mobius_y R (u_sample n (nat n - Suc 0)) (w / 2) = 0"
    "mobius_z (u_sample n (nat n - Suc 0)) (w / 2) = 0"
    using assms(2)
    by (simp_all add: u_sample_first u_sample_last mobius_x_def mobius_y_def mobius_z_def)
  define px where "px = map (\<lambda>j. mobius_x R (u_sample n j) (w / 2)) [0..<nat n]"
  define py where "py = map (\<lambda>j. mobius_y R (u_sample n j) (w / 2)) [0..<nat n]"
  define pz where "pz = map (\<lambda>j. mobius_z (u_sample n j) (w / 2)) [0..<nat n]"
  have p: "edge_points self = Inr (px, py, pz)"
    unfolding s px_def py_def pz_def by (rule edge_points_grid [OF n])
  have first: "(px ! 0, py ! 0, pz ! 0) = (R + w / 2, 0, 0)"
    using l ends by (simp add: px_def py_def pz_def)
  have last: "(px ! (nat n - 1), py ! (nat n - 1), pz ! (nat n - 1)) = (R - w / 2, 0, 0)"
    using l ends by (simp add: px_def py_def pz_def)
  have dist: "chord (R + w / 2, 0, 0) (R - w / 2, 0, 0) = \<bar>w\<bar>"
    by (simp add: chord_x_axis)
  have chords: "edge_chords (px, py, pz) =
      map (\<lambda>i. chord (px ! i, py ! i, pz ! i) (px ! (i + 1), py ! (i + 1), pz ! (i + 1)))
        [0..<nat n - 1]"
    unfolding px_def py_def pz_def by (rule edge_chords_nth)
  have len: "edge_length self = Inr (2 * sum_list (edge_chords (px, py, pz)))"
    by (simp add: edge_length_def p bind_err_def)
  from p first last dist chords len pairs show ?thesis by blast
qed

theorem edge_not_closed_witness:
  "init 1 1 3 = Inr (grid 1 1 3) \<and> (2::int) \<le> 3
   \<and> edge_points (grid 1 1 3) = Inr ([3 / 2, - 1, 1 / 2], [0, 0, 0], [0, 1 / 2, 0])
   \<and> edge_chords ([3 / 2, - 1, 1 / 2], [0, 0, 0], [0, 1 / 2, 0])
       = [chord (3 / 2, 0, 0) (- 1, 0, 1 / 2), chord (- 1, 0, 1 / 2) (1 / 2, 0, 0)]
   \<and> chord (3 / 2, 0, 0) (1 / 2, 0, 0) = (1::real)"
proof -
  have h: "init 1 1 3 = Inr (grid 1 1 3)" by (simp add: init_grid)
  have p: "edge_points (grid 1 1 3) = Inr ([3 / 2, - 1, 1 / 2], [0, 0, 0], [0, 1 / 2, 0])"
    by (simp add: edge_points_grid u_sample_def mobius_x_def mobius_y_def mobius_z_def upt_rec)
  have u: "[0..<nat 3 - 1] = [0, 1]" by (simp add: upt_rec)
  from edge_not_closed [OF h] p h u show ?thesis by (auto simp: chord_x_axis)
qed

text \<open>
  At \<open>n = 2\<close> the claim as written fails: the only chord summed is the one between
  the first and the last point.
\<close>

theorem edge_closing_chord_counterexample:
  "init 1 1 2 = Inr (grid 1 1 2)
   \<and> edge_points (grid 1 1 2) = Inr ([3 / 2, 1 / 2], [0, 0], [0, 0])
   \<and> edge_chords ([3 / 2, 1 / 2], [0, 0], [0, 0]) = [chord (3 / 2, 0, 0) (1 / 2, 0, 0)]
   \<and> edge_length (grid 1 1 2) = Inr (2 * chord (3 / 2, 0, 0) (1 / 2, 0, 0))
   \<and> (0::nat) < nat 2 - 1 \<and> ((0::nat), (0::nat) + 1) = (0, nat 2 - 1)"
proof -
  have p: "edge_points (grid 1 1 2) = Inr ([3 / 2, 1 / 2], [0, 0], [0, 0])"
    by (simp add: edge_points_grid u_sample_def mobius_x_def mobius_y_def mobius_z_def upt_rec)
  have c: "edge_chords ([3 / 2, 1 / 2], [0, 0], [0, 0]) = [chord (3 / 2, 0, 0) (1 / 2, 0, 0)]"
    by (simp add: edge_chords_def diff_def chord_def)
  show ?thesis
    by (simp add: init_grid p c edge_length_def bind_err_def)
qed

section \<open>Scaling\<close>

lemma mobius_scale:
  "mobius_x (k * R) t (k * v) = k * mobius_x R t v"
  "mobius_y (k * R) t (k * v) = k * mobius_y R t v"
  "mobius_z t (k * v) = k * mobius_z t v"
  by (simp_all add: mobius_x_def mobius_y_def mobius_z_def algebra_simps)

lemma v_sample_scale: "v_sample (k * w) n i = k * v_sample w n i"
  by (simp add: v_sample_def algebra_simps)

lemma central_diff_scale: "central_diff (\<lambda>m. k * f m) N j = k * central_diff f N j"
  by (simp add: central_diff_def algebra_simps)

lemma cross_magnitude_scale:
  "cross_magnitude (k * xu, k * yu, k * zu) (k * xv, k * yv, k * zv)
     = k\<^sup>2 * cross_magnitude (xu, yu, zu) (xv, yv, zv)"
proof -
  have "(k * yu * (k * zv) - k * zu * (k * yv))\<^sup>2 + (k * zu * (k * xv) - k * xu * (k * zv))\<^sup>2
        + (k * xu * (k * yv) - k * yu * (k * xv))\<^sup>2
      = (k\<^sup>2)\<^sup>2 * ((yu * zv - zu * yv)\<^sup>2 + (zu * xv - xu * zv)\<^sup>2 + (xu * yv - yu * xv)\<^sup>2)"
    by (simp add: power2_eq_square algebra_simps)
  then show ?thesis
    unfolding cross_magnitude_def prod.case
    by (simp only: real_sqrt_mult real_sqrt_abs abs_power2)
qed

lemma spec_dA_scale:
  "spec_dA (\<lambda>i j. mobius_x (k * R) (u_sample n j) (v_sample (k * w) n i))
           (\<lambda>i j. mobius_y (k * R) (u_sample n j) (v_sample (k * w) n i))
           (\<lambda>i j. mobius_z (u_sample n j) (v_sample (k * w) n i)) N i j
   = k\<^sup>2 * spec_dA (\<lambda>i j. mobius_x R (u_sample n j) (v_sample w n i))
           (\<lambda>i j. mobius_y R (u_sample n j) (v_sample w n i))
           (\<lambda>i j. mobius_z (u_sample n j) (v_sample w n i)) N i j"
  unfolding spec_dA_def v_sample_scale mobius_scale central_diff_scale
  by (rule cross_magnitude_scale)

lemma surface_area_scale:
  assumes "2 \<le> n"
  shows "\<exists>a. surface_area (grid R w n) = Inr a
           \<and> surface_area (grid (k * R) (k * w) n) = Inr (k ^ 3 * a)"
proof -
  define S where "S = (\<Sum>i<nat n. \<Sum>j<nat n.
            spec_dA (\<lambda>i j. mobius_x R (u_sample n j) (v_sample w n i))
                    (\<lambda>i j. mobius_y R (u_sample n j) (v_sample w n i))
                    (\<lambda>i j. mobius_z (u_sample n j) (v_sample w n i)) (nat n) i j)"
  have a: "surface_area (grid R w n)
      = Inr (S * (2 * pi / real_of_int (n - 1)) * (w / real_of_int (n - 1)))"
    unfolding S_def by (rule surface_area_grid [OF assms])
  have "surface_area (grid (k * R) (k * w) n)
      = Inr ((\<Sum>i<nat n. \<Sum>j<nat n. k\<^sup>2 *
            spec_dA (\<lambda>i j. mobius_x R (u_sample n j) (v_sample w n i))
                    (\<lambda>i j. mobius_y R (u_sample n j) (v_sample w n i))
                    (\<lambda>i j. mobius_z (u_sample n j) (v_sample w n i)) (nat n) i j)
          * (2 * pi / real_of_int (n - 1)) * (k * w / real_of_int (n - 1)))"
    unfolding surface_area_grid [OF assms] spec_dA_scale ..
  also have "\<dots> = Inr (k ^ 3 * (S * (2 * pi / real_of_int (n - 1)) * (w / real_of_int (n - 1))))"
    unfolding S_def sum_distrib_left [symmetric]
    by (simp add: power2_eq_square power3_eq_cube)
  finally show ?thesis using a by blast
qed

lemma chord_scale:
  "chord (k * px, k * py, k * pz) (k * qx, k * qy, k * qz) = \<bar>k\<bar> * chord (px, py, pz) (qx, qy, qz)"
proof -
  have "(k * qx - k * px)\<^sup>2 + (k * qy - k * py)\<^sup>2 + (k * qz - k * pz)\<^sup>2
      = k\<^sup>2 * ((qx - px)\<^sup>2 + (qy - py)\<^sup>2 + (qz - pz)\<^sup>2)"
    by (simp add: power2_eq_square algebra_simps)
  then show ?thesis
    unfolding chord_def prod.case by (simp only: real_sqrt_mult real_sqrt_abs)
qed

lemma spec_edge_length_scale:
  "spec_edge_length (k * R) (k * w) n = \<bar>k\<bar> * spec_edge_length R w n"
proof -
  have h: "k * w / 2 = k * (w / 2)" by simp
  show ?thesis
    unfolding spec_edge_length_def boundary_point_def h mobius_scale chord_scale
      sum_distrib_left [symmetric]
    by simp
qed

text \<open>
  Claim C2 at \<open>R = w = 1\<close>, \<open>n = 3\<close>, \<open>k = 2\<close>: scaling radius and width by \<open>k\<close>
  multiplies what \<^verbatim>\<open>surface_area\<close> returns by \<open>k\<^sup>3\<close>, not by \<open>k\<^sup>2\<close>.
\<close>

theorem surface_area_scales_cubically_at_3:
  "init 1 1 3 = Inr (grid 1 1 3) \<and> init (2 * 1) (2 * 1) 3 = Inr (grid 2 2 3)
   \<and> surface_area (grid 1 1 3) = Inr (3 * pi / 4)
   \<and> surface_area (grid 2 2 3) = Inr (2 ^ 3 * (3 * pi / 4))
   \<and> 2 ^ 3 * (3 * pi / 4) \<noteq> 2\<^sup>2 * (3 * pi / 4)"
  by (simp add: init_grid surface_area_3 surface_area_3_scaled)

text \<open>
  The general law behind it: for every \<open>n \<ge> 2\<close>, scaling \<open>R\<close> and \<open>w\<close> by \<open>k\<close> multiplies
  what \<^verbatim>\<open>surface_area\<close> returns by \<open>k\<^sup>3\<close>.  The sum of the area elements scales by
  \<open>k\<^sup>2\<close>, and \<open>dv = w/(n-1)\<close> contributes one more \<open>k\<close>.
\<close>

theorem surface_area_scaling:
  assumes "2 \<le> n"
  shows "\<exists>s s' a. init R w n = Inr s \<and> init (k * R) (k * w) n = Inr s'
           \<and> surface_area s = Inr a \<and> surface_area s' = Inr (k ^ 3 * a)"
proof -
  from assms have n: "0 \<le> n" by simp
  from surface_area_scale [OF assms, of R w k] init_grid [OF n, of R w]
    init_grid [OF n, of "k * R" "k * w"]
  show ?thesis by blast
qed

theorem surface_area_scaling_witness:
  "(2::int) \<le> 3
   \<and> (\<exists>s s' a. init 1 1 3 = Inr s \<and> init 2 2 3 = Inr s'
           \<and> surface_area s = Inr a \<and> surface_area s' = Inr (8 * a))"
  using surface_area_scaling [of 3 1 1 2] by simp

text \<open>
  \<^verbatim>\<open>edge_length\<close> does scale as a length: by \<open>k\<close>, for \<open>k > 0\<close>.
\<close>

theorem edge_length_scaling:
  assumes "2 \<le> n" and "0 < k"
  shows "\<exists>s s' e. init R w n = Inr s \<and> init (k * R) (k * w) n = Inr s'
           \<and> edge_length s = Inr e \<and> edge_length s' = Inr (k * e)"
proof -
  from assms(1) have n: "0 \<le> n" by simp
  have "edge_length (grid (k * R) (k * w) n) = Inr (k * spec_edge_length R w n)"
    using assms(2) by (simp add: edge_length_grid [OF n] spec_edge_length_scale)
  with edge_length_grid [OF n, of R w] init_grid [OF n, of R w]
    init_grid [OF n, of "k * R" "k * w"]
  show ?thesis by blast
qed

theorem edge_length_scaling_witness:
  "(2::int) \<le> 3 \<and> (0::real) < 2
   \<and> (\<exists>s s' e. init 1 1 3 = Inr s \<and> init 2 2 3 = Inr s'
           \<and> edge_length s = Inr e \<and> edge_length s' = Inr (2 * e))"
  using edge_length_scaling [of 3 2 1 1] by simp

section \<open>The degenerate width\<close>

lemma polygon_ge_circle:
  assumes "2 \<le> n" and "0 \<le> R"
  shows "2 * (2 * pi * R) * (1 - (pi / real_of_int (n - 1))\<^sup>2 / 6)
       \<le> 4 * real_of_int (n - 1) * R * sin (pi / real_of_int (n - 1))"
proof -
  define N where "N = real_of_int (n - 1)"
  from assms(1) have p: "0 < N" by (simp add: N_def)
  have "pi / N - (pi / N) ^ 3 / 6 \<le> sin (pi / N)"
    using p by (intro sin_lower) simp
  then have "N * (pi / N - (pi / N) ^ 3 / 6) \<le> N * sin (pi / N)"
    using p by (intro mult_left_mono) simp_all
  moreover have "N * (pi / N - (pi / N) ^ 3 / 6) = pi * (1 - (pi / N)\<^sup>2 / 6)"
    using p by (simp add: field_simps power2_eq_square power3_eq_cube)
  ultimately have "pi * (1 - (pi / N)\<^sup>2 / 6) \<le> N * sin (pi / N)" by simp
  then have "4 * R * (pi * (1 - (pi / N)\<^sup>2 / 6)) \<le> 4 * R * (N * sin (pi / N))"
    using assms(2) by (intro mult_left_mono) simp_all
  then show ?thesis unfolding N_def by (simp add: algebra_simps)
qed

lemma edge_length_2: "edge_length (grid R w 2) = Inr (2 * \<bar>w\<bar>)"
  by (simp add: edge_length_grid spec_edge_length_def boundary_point_def chord_def
      u_sample_def mobius_x_def mobius_y_def mobius_z_def)

text \<open>
  Claim C7, as amended.  For fixed \<open>R > 0\<close> and \<open>n \<ge> 2\<close> both methods return a number
  for every width \<open>w\<close>; as \<open>w\<close> tends to 0 from above, what \<^verbatim>\<open>surface_area\<close> returns tends
  to 0 and what \<^verbatim>\<open>edge_length\<close> returns tends to \<open>4\<cdot>(n-1)\<cdot>R\<cdot>sin(\<pi>/(n-1))\<close>, twice the
  length of the polygon through the \<open>n\<close> samples of the core circle.  That limit is at
  most \<open>2\<cdot>2\<pi>R\<close> and falls short of it by at most the factor \<open>1 - (\<pi>/(n-1))\<^sup>2/6\<close>.
\<close>

theorem degenerate_width:
  assumes "2 \<le> n" and "0 < R"
  shows "\<exists>S E. (\<forall>w. \<exists>self. init R w n = Inr self \<and> surface_area self = Inr (S w)
                    \<and> edge_length self = Inr (E w))
       \<and> (S \<longlongrightarrow> 0) (at_right 0)
       \<and> (E \<longlongrightarrow> 4 * real_of_int (n - 1) * R * sin (pi / real_of_int (n - 1))) (at_right 0)
       \<and> 4 * real_of_int (n - 1) * R * sin (pi / real_of_int (n - 1)) \<le> 2 * (2 * pi * R)
       \<and> 2 * (2 * pi * R) * (1 - (pi / real_of_int (n - 1))\<^sup>2 / 6)
           \<le> 4 * real_of_int (n - 1) * R * sin (pi / real_of_int (n - 1))"
proof -
  define S where "S = (\<lambda>w. (\<Sum>i<nat n. \<Sum>j<nat n.
            spec_dA (\<lambda>i j. mobius_x R (u_sample n j) (v_sample w n i))
                    (\<lambda>i j. mobius_y R (u_sample n j) (v_sample w n i))
                    (\<lambda>i j. mobius_z (u_sample n j) (v_sample w n i)) (nat n) i j)
          * (2 * pi / real_of_int (n - 1)) * (w / real_of_int (n - 1)))"
  define E where "E = (\<lambda>w. spec_edge_length R w n)"
  from assms(1) have n: "0 \<le> n" by simp
  have run: "\<exists>self. init R w n = Inr self \<and> surface_area self = Inr (S w)
                \<and> edge_length self = Inr (E w)" for w
    using init_grid [OF n, of R w] surface_area_grid [OF assms(1), of R w]
      edge_length_grid [OF n, of R w]
    unfolding S_def E_def by blast
  have "(S \<longlongrightarrow> S 0) (at_right 0)"
    unfolding S_def by (rule isCont_at_right) (rule isCont_surface [OF assms(1)])
  moreover have "S 0 = 0" by (simp add: S_def)
  ultimately have s: "(S \<longlongrightarrow> 0) (at_right 0)" by simp
  have "(E \<longlongrightarrow> E 0) (at_right 0)"
    unfolding E_def by (rule isCont_at_right) (rule isCont_edge)
  moreover have "E 0 = 4 * real_of_int (n - 1) * R * sin (pi / real_of_int (n - 1))"
    using assms(2) by (simp add: E_def spec_edge_length_degenerate [OF assms(1)])
  ultimately have e: "(E \<longlongrightarrow> 4 * real_of_int (n - 1) * R * sin (pi / real_of_int (n - 1))) (at_right 0)"
    by simp
  from assms(2) have R: "0 \<le> R" by simp
  from run s e polygon_le_circle [OF assms(1) R] polygon_ge_circle [OF assms(1) R]
  show ?thesis by blast
qed

theorem degenerate_width_witness:
  "(2::int) \<le> 3 \<and> (0::real) < 1
   \<and> (\<exists>S E. (\<forall>w. \<exists>self. init 1 w 3 = Inr self \<and> surface_area self = Inr (S w)
                    \<and> edge_length self = Inr (E w))
       \<and> (S \<longlongrightarrow> 0) (at_right 0) \<and> (E \<longlongrightarrow> 8) (at_right 0))"
proof -
  have a: "(2::int) \<le> 3" and b: "(0::real) < 1" by simp_all
  from degenerate_width [OF a b] obtain S E where
    "\<forall>w. \<exists>self. init 1 w 3 = Inr self \<and> surface_area self = Inr (S w) \<and> edge_length self = Inr (E w)"
    "(S \<longlongrightarrow> 0) (at_right 0)"
    "(E \<longlongrightarrow> 4 * real_of_int (3 - 1) * 1 * sin (pi / real_of_int (3 - 1))) (at_right 0)"
    by blast
  then show ?thesis by (intro conjI exI [of _ S] exI [of _ E]) simp_all
qed

text \<open>
  At \<open>n = 2\<close> the claim as written fails: \<^verbatim>\<open>edge_length\<close> returns \<open>2\<cdot>\<bar>w\<bar>\<close>, which tends
  to 0 and not to \<open>2\<cdot>2\<pi>R\<close>.
\<close>

theorem degenerate_width_counterexample:
  "(\<forall>w. \<exists>self. init 1 w 2 = Inr self \<and> edge_length self = Inr (2 * \<bar>w\<bar>))
   \<and> ((\<lambda>w::real. 2 * \<bar>w\<bar>) \<longlongrightarrow> 0) (at_right 0)
   \<and> \<not> ((\<lambda>w::real. 2 * \<bar>w\<bar>) \<longlongrightarrow> 2 * (2 * pi * 1)) (at_right 0)
   \<and> 8 \<le> \<bar>0 - 2 * (2 * pi * 1)\<bar>"
proof -
  have run: "\<exists>self. init 1 w 2 = Inr self \<and> edge_length self = Inr (2 * \<bar>w\<bar>)" for w
    using init_grid [of 2 1 w] edge_length_2 [of 1 w] by simp
  have "isCont (\<lambda>w::real. 2 * \<bar>w\<bar>) 0" by (intro continuous_intros)
  from isCont_at_right [OF this] have lim: "((\<lambda>w::real. 2 * \<bar>w\<bar>) \<longlongrightarrow> 0) (at_right 0)"
    by simp
  have no: "\<not> ((\<lambda>w::real. 2 * \<bar>w\<bar>) \<longlongrightarrow> 2 * (2 * pi * 1)) (at_right 0)"
  proof
    assume "((\<lambda>w::real. 2 * \<bar>w\<bar>) \<longlongrightarrow> 2 * (2 * pi * 1)) (at_right 0)"
    from tendsto_unique [OF trivial_limit_at_right_real this lim] show False
      by simp
  qed
  have "8 \<le> \<bar>0 - 2 * (2 * pi * 1)\<bar>" using pi_ge_two by simp
  with run lim no show ?thesis by blast
qed

section \<open>Bounds on the chord sum\<close>

lemma half_angle: "u_sample n j / 2 = real j * pi / real_of_int (n - 1)"
  by (cases "n = 1") (simp_all add: u_sample_def field_simps)

lemma half_angle_range:
  assumes "2 \<le> n" and "j < nat n"
  shows "0 \<le> u_sample n j / 2" and "u_sample n j / 2 \<le> pi"
proof -
  from assms(1) have p: "0 < real_of_int (n - 1)" by simp
  from assms have "real j \<le> real_of_int (n - 1)"
    by (metis of_int_of_nat_eq of_int_le_iff zle_diff1_eq zless_nat_eq_int_zless)
  then have "real j * pi \<le> real_of_int (n - 1) * pi"
    by (intro mult_right_mono) simp_all
  then show "u_sample n j / 2 \<le> pi"
    unfolding half_angle using p by (simp add: field_simps)
  show "0 \<le> u_sample n j / 2"
    unfolding half_angle using p by simp
qed

lemma cos_half_sum:
  assumes "2 \<le> n"
  shows "(\<Sum>j<nat n. cos (u_sample n j / 2)) = 0"
proof -
  define g where "g = (\<lambda>j. cos (u_sample n j / 2))"
  from assms have p: "real_of_int (n - 1) \<noteq> 0" by simp
  have "g (nat n - Suc j) = - g j" if "j < nat n" for j
  proof -
    from that assms have "real (nat n - Suc j) = real_of_int (n - 1) - real j"
      by (simp add: of_nat_diff)
    then have "u_sample n (nat n - Suc j) / 2 = pi - u_sample n j / 2"
      unfolding half_angle using p by (simp add: field_simps)
    then have "g (nat n - Suc j) = cos (pi - u_sample n j / 2)"
      by (simp only: g_def)
    then show ?thesis by (simp only: cos_pi_minus g_def)
  qed
  then have "(\<Sum>j<nat n. g (nat n - Suc j)) = (\<Sum>j<nat n. - g j)"
    by (intro sum.cong) simp_all
  then have "(\<Sum>j<nat n. g j) = - (\<Sum>j<nat n. g j)"
    by (simp add: sum.nat_diff_reindex sum_negf)
  then show ?thesis unfolding g_def by simp
qed

lemma cos_half_sum_tail:
  assumes "2 \<le> n"
  shows "(\<Sum>i<nat n - 1. cos (u_sample n (Suc i) / 2)) = - 1"
proof -
  from assms have s: "Suc (nat n - 1) = nat n" by simp
  have "(\<Sum>j<nat n. cos (u_sample n j / 2))
      = cos (u_sample n 0 / 2) + (\<Sum>i<nat n - 1. cos (u_sample n (Suc i) / 2))"
    using sum.lessThan_Suc_shift [of "\<lambda>j. cos (u_sample n j / 2)" "nat n - 1"]
    unfolding s .
  then show ?thesis
    unfolding cos_half_sum [OF assms] u_sample_first by simp
qed

lemma cos_half_sum_head:
  assumes "2 \<le> n"
  shows "(\<Sum>i<nat n - 1. cos (u_sample n i / 2)) = 1"
proof -
  from assms have s: "Suc (nat n - 1) = nat n" by simp
  have "(\<Sum>j<nat n. cos (u_sample n j / 2))
      = (\<Sum>i<nat n - 1. cos (u_sample n i / 2)) + cos (u_sample n (nat n - 1) / 2)"
    using sum.lessThan_Suc [of "\<lambda>j. cos (u_sample n j / 2)" "nat n - 1"]
    unfolding s .
  moreover have "cos (u_sample n (nat n - 1) / 2) = - 1"
    using u_sample_last [OF assms] by simp
  ultimately show ?thesis
    unfolding cos_half_sum [OF assms] by simp
qed

lemma rho_sum_tail:
  assumes "2 \<le> n"
  shows "(\<Sum>i<nat n - 1. rho R v (u_sample n (Suc i))) = real_of_int (n - 1) * R - v"
proof -
  from assms have k: "real (nat n - 1) = real_of_int (n - 1)" by (simp add: of_nat_diff)
  have "(\<Sum>i<nat n - 1. rho R v (u_sample n (Suc i)))
      = real (nat n - 1) * R + v * (\<Sum>i<nat n - 1. cos (u_sample n (Suc i) / 2))"
    unfolding rho_def by (simp only: sum.distrib sum_distrib_left sum_constant card_lessThan)
  then show ?thesis
    unfolding k cos_half_sum_tail [OF assms] by simp
qed

lemma rho_sum_head:
  assumes "2 \<le> n"
  shows "(\<Sum>i<nat n - 1. rho R v (u_sample n i)) = real_of_int (n - 1) * R + v"
proof -
  from assms have k: "real (nat n - 1) = real_of_int (n - 1)" by (simp add: of_nat_diff)
  have "(\<Sum>i<nat n - 1. rho R v (u_sample n i))
      = real (nat n - 1) * R + v * (\<Sum>i<nat n - 1. cos (u_sample n i / 2))"
    unfolding rho_def by (simp only: sum.distrib sum_distrib_left sum_constant card_lessThan)
  then show ?thesis
    unfolding k cos_half_sum_head [OF assms] by simp
qed

lemma rho_lower: "0 \<le> v \<Longrightarrow> R - v \<le> rho R v t"
proof -
  assume "0 \<le> v"
  then have "v * (- 1) \<le> v * cos (t / 2)" by (intro mult_left_mono) simp_all
  then show ?thesis by (simp add: rho_def)
qed

lemma rho_decreasing:
  assumes "2 \<le> n" and "Suc i < nat n" and "0 \<le> v"
  shows "rho R v (u_sample n (Suc i)) \<le> rho R v (u_sample n i)"
proof -
  from assms(1) have p: "0 < real_of_int (n - 1)" by simp
  have "u_sample n i / 2 \<le> u_sample n (Suc i) / 2"
    unfolding half_angle using p by (simp add: field_simps)
  moreover have "0 \<le> u_sample n i / 2" "u_sample n (Suc i) / 2 \<le> pi"
    using half_angle_range [OF assms(1)] assms(2) by simp_all
  ultimately have "cos (u_sample n (Suc i) / 2) \<le> cos (u_sample n i / 2)"
    by (intro cos_monotone_0_pi_le)
  then show ?thesis
    using assms(3) by (simp add: rho_def mult_left_mono)
qed


lemma chord_boundary_sq:
  assumes "2 \<le> n"
  shows "(chord (boundary_point R w n i) (boundary_point R w n (Suc i)))\<^sup>2
       = 4 * (w / 2)\<^sup>2 * (sin (pi / (2 * real_of_int (n - 1))))\<^sup>2
         + 4 * rho R (w / 2) (u_sample n i) * rho R (w / 2) (u_sample n (Suc i))
             * (sin (pi / real_of_int (n - 1)))\<^sup>2"
proof -
  from assms have p: "0 < real_of_int (n - 1)" by simp
  have s: "u_sample n (Suc i) - u_sample n i = 2 * pi / real_of_int (n - 1)"
    using u_sample_step [of n i] by simp
  have h4: "(u_sample n (Suc i) - u_sample n i) / 4 = pi / (2 * real_of_int (n - 1))"
    unfolding s using p by (simp add: field_simps)
  have h2: "(u_sample n (Suc i) - u_sample n i) / 2 = pi / real_of_int (n - 1)"
    unfolding s using p by (simp add: field_simps)
  show ?thesis
    unfolding boundary_point_def chord_sq h4 h2 ..
qed

lemma sin_step_nonneg:
  assumes "2 \<le> n"
  shows "0 \<le> sin (pi / real_of_int (n - 1))"
proof -
  from assms have p: "1 \<le> real_of_int (n - 1)" by simp
  then have "pi / real_of_int (n - 1) \<le> pi" by (simp add: field_simps)
  with p show ?thesis by (intro sin_ge_zero) simp_all
qed

lemma chord_lower:
  assumes "2 \<le> n" and "Suc i < nat n" and "0 \<le> w" and "w / 2 \<le> R"
  shows "2 * sin (pi / real_of_int (n - 1)) * rho R (w / 2) (u_sample n (Suc i))
       \<le> chord (boundary_point R w n i) (boundary_point R w n (Suc i))"
proof -
  define s where "s = sin (pi / real_of_int (n - 1))"
  define a where "a = rho R (w / 2) (u_sample n i)"
  define b where "b = rho R (w / 2) (u_sample n (Suc i))"
  from assms(3) have v: "0 \<le> w / 2" by simp
  have s0: "0 \<le> s" unfolding s_def by (rule sin_step_nonneg [OF assms(1)])
  have b0: "0 \<le> b" using rho_lower [OF v, of R "u_sample n (Suc i)"] assms(4) by (simp add: b_def)
  have ba: "b \<le> a" unfolding a_def b_def by (rule rho_decreasing [OF assms(1,2) v])
  have "b * b \<le> a * b" using ba b0 by (intro mult_right_mono)
  then have "4 * s\<^sup>2 * (b * b) \<le> 4 * s\<^sup>2 * (a * b)"
    by (intro mult_left_mono) simp_all
  then have "(2 * s * b)\<^sup>2 \<le> 4 * a * b * s\<^sup>2"
    by (simp add: power2_eq_square algebra_simps)
  also have "\<dots> \<le> (chord (boundary_point R w n i) (boundary_point R w n (Suc i)))\<^sup>2"
    unfolding chord_boundary_sq [OF assms(1)] a_def b_def s_def by simp
  finally have "2 * s * b \<le> chord (boundary_point R w n i) (boundary_point R w n (Suc i))"
    by (rule power2_le_imp_le) (rule chord_nonneg)
  then show ?thesis unfolding s_def b_def .
qed

lemma sin_sq_le: "(sin (x::real))\<^sup>2 \<le> x\<^sup>2"
  using abs_sin_x_le_abs_x [of x] by (simp only: abs_le_square_iff)

lemma chord_upper:
  assumes "2 \<le> n" and "0 \<le> w" and "w / 2 < R"
  shows "chord (boundary_point R w n i) (boundary_point R w n (Suc i))
       \<le> 2 * pi / real_of_int (n - 1)
           * ((rho R (w / 2) (u_sample n i) + rho R (w / 2) (u_sample n (Suc i))) / 2
              + (w / 2)\<^sup>2 / (8 * (R - w / 2)))"
proof -
  define N where "N = real_of_int (n - 1)"
  define v where "v = w / 2"
  define a where "a = rho R v (u_sample n i)"
  define b where "b = rho R v (u_sample n (Suc i))"
  define m where "m = (a + b) / 2"
  define c where "c = v\<^sup>2 / (8 * (R - v))"
  define h where "h = 2 * pi / N"
  from assms(1) have N: "0 < N" by (simp add: N_def)
  from assms(2,3) have v: "0 \<le> v" and Rv: "0 < R - v" by (simp_all add: v_def)
  have a0: "R - v \<le> a" and b0: "R - v \<le> b"
    unfolding a_def b_def by (rule rho_lower [OF v])+
  then have m0: "R - v \<le> m" by (simp add: m_def)
  have c0: "0 \<le> c" unfolding c_def using Rv by simp
  have h0: "0 \<le> h" unfolding h_def using N by simp
  have ab0: "0 \<le> a * b" using a0 b0 Rv by simp
  have "(chord (boundary_point R w n i) (boundary_point R w n (Suc i)))\<^sup>2
      = 4 * v\<^sup>2 * (sin (pi / (2 * N)))\<^sup>2 + 4 * (a * b) * (sin (pi / N))\<^sup>2"
    unfolding chord_boundary_sq [OF assms(1)] a_def b_def v_def N_def by simp
  also have "\<dots> \<le> 4 * v\<^sup>2 * (pi / (2 * N))\<^sup>2 + 4 * (a * b) * (pi / N)\<^sup>2"
    using ab0 by (intro add_mono mult_left_mono sin_sq_le) simp_all
  also have "\<dots> = h\<^sup>2 * (v\<^sup>2 / 4 + a * b)"
    using N by (simp add: h_def power2_eq_square field_simps)
  also have "\<dots> \<le> h\<^sup>2 * (m + c)\<^sup>2"
  proof (intro mult_left_mono)
    have "a * b \<le> m\<^sup>2"
    proof -
      have "m\<^sup>2 - a * b = ((a - b) / 2)\<^sup>2"
        by (simp add: m_def power2_eq_square field_simps)
      then have "0 \<le> m\<^sup>2 - a * b" by simp
      then show ?thesis by simp
    qed
    moreover have "v\<^sup>2 / 4 \<le> 2 * m * c"
    proof -
      have "2 * (R - v) * c = v\<^sup>2 / 4" unfolding c_def using Rv by (simp add: field_simps)
      moreover have "2 * (R - v) * c \<le> 2 * m * c"
        using m0 c0 by (intro mult_right_mono mult_left_mono) simp_all
      ultimately show ?thesis by simp
    qed
    moreover have "(m + c)\<^sup>2 = m\<^sup>2 + 2 * m * c + c\<^sup>2"
      by (simp add: power2_eq_square algebra_simps)
    ultimately show "v\<^sup>2 / 4 + a * b \<le> (m + c)\<^sup>2"
      by (smt (verit) zero_le_power2)
  qed simp
  also have "\<dots> = (h * (m + c))\<^sup>2" by (simp add: power_mult_distrib)
  finally have "chord (boundary_point R w n i) (boundary_point R w n (Suc i)) \<le> h * (m + c)"
  proof (rule power2_le_imp_le)
    from m0 Rv c0 have "0 \<le> m + c" by simp
    with h0 show "0 \<le> h * (m + c)" by simp
  qed
  then show ?thesis unfolding h_def m_def c_def a_def b_def v_def N_def .
qed


lemma spec_edge_length_Suc:
  "spec_edge_length R w n
     = 2 * (\<Sum>i<nat n - 1. chord (boundary_point R w n i) (boundary_point R w n (Suc i)))"
  by (simp add: spec_edge_length_def)

lemma edge_lower:
  assumes "2 \<le> n" and "0 \<le> w" and "w / 2 \<le> R"
  shows "4 * sin (pi / real_of_int (n - 1)) * (real_of_int (n - 1) * R - w / 2)
       \<le> spec_edge_length R w n"
proof -
  define s where "s = sin (pi / real_of_int (n - 1))"
  have "(\<Sum>i<nat n - 1. 2 * s * rho R (w / 2) (u_sample n (Suc i)))
      \<le> (\<Sum>i<nat n - 1. chord (boundary_point R w n i) (boundary_point R w n (Suc i)))"
    unfolding s_def
    by (intro sum_mono chord_lower [OF assms(1) _ assms(2,3)]) simp
  moreover have "(\<Sum>i<nat n - 1. 2 * s * rho R (w / 2) (u_sample n (Suc i)))
      = 2 * s * (real_of_int (n - 1) * R - w / 2)"
    unfolding sum_distrib_left [symmetric] rho_sum_tail [OF assms(1)] ..
  ultimately show ?thesis
    unfolding spec_edge_length_Suc s_def by simp
qed

lemma edge_upper:
  assumes "2 \<le> n" and "0 \<le> w" and "w / 2 < R"
  shows "spec_edge_length R w n \<le> 4 * pi * (R + (w / 2)\<^sup>2 / (8 * (R - w / 2)))"
proof -
  define N where "N = real_of_int (n - 1)"
  define c where "c = (w / 2)\<^sup>2 / (8 * (R - w / 2))"
  from assms(1) have N: "0 < N" and k: "real (nat n - 1) = N"
    by (simp_all add: N_def of_nat_diff)
  have "(\<Sum>i<nat n - 1. chord (boundary_point R w n i) (boundary_point R w n (Suc i)))
      \<le> (\<Sum>i<nat n - 1. 2 * pi / N *
            ((rho R (w / 2) (u_sample n i) + rho R (w / 2) (u_sample n (Suc i))) / 2 + c))"
    unfolding N_def c_def by (intro sum_mono chord_upper [OF assms])
  also have "\<dots> = 2 * pi / N *
      (((\<Sum>i<nat n - 1. rho R (w / 2) (u_sample n i))
        + (\<Sum>i<nat n - 1. rho R (w / 2) (u_sample n (Suc i)))) / 2 + real (nat n - 1) * c)"
    by (simp only: sum_distrib_left [symmetric] sum.distrib sum_divide_distrib [symmetric]
        sum_constant card_lessThan)
  also have "\<dots> = 2 * pi / N * (N * R + N * c)"
    unfolding rho_sum_head [OF assms(1)] rho_sum_tail [OF assms(1)] k N_def [symmetric] by simp
  also have "\<dots> = 2 * pi * (R + c)"
    using N by (simp add: field_simps)
  finally show ?thesis
    unfolding spec_edge_length_Suc c_def by simp
qed

lemma edge_literal_lower: "399 / 100 * pi \<le> spec_edge_length 1 (1 / 2) 200"
proof -
  define x where "x = pi / 199"
  have x0: "0 \<le> x" by (simp add: x_def)
  have "x \<le> 4 / 199" using pi_less_4 by (simp add: x_def)
  then have "x\<^sup>2 \<le> (4 / 199)\<^sup>2" using x0 by (intro power_mono)
  then have "x * x\<^sup>2 \<le> x * (4 / 199)\<^sup>2" using x0 by (intro mult_left_mono)
  then have "x - x * (4 / 199)\<^sup>2 / 6 \<le> x - x ^ 3 / 6"
    by (simp add: power3_eq_cube power2_eq_square)
  also have "\<dots> \<le> sin x" by (rule sin_lower [OF x0])
  finally have "4 * (x - x * (4 / 199)\<^sup>2 / 6) * (199 - 1 / 4) \<le> 4 * sin x * (199 - 1 / 4)"
    by (intro mult_right_mono mult_left_mono) simp_all
  moreover have "399 / 100 * pi \<le> 4 * (x - x * (4 / 199)\<^sup>2 / 6) * (199 - 1 / 4)"
    by (simp add: x_def power2_eq_square field_simps)
  moreover have "4 * sin x * (199 - 1 / 4) \<le> spec_edge_length 1 (1 / 2) 200"
    using edge_lower [of 200 "1 / 2" 1] by (simp add: x_def)
  ultimately show ?thesis by linarith
qed

lemma edge_literal_upper: "spec_edge_length 1 (1 / 2) 200 \<le> 405 / 100 * pi"
proof -
  have "spec_edge_length 1 (1 / 2) 200 \<le> 4 * pi * (1 + (1 / 2 / 2)\<^sup>2 / (8 * (1 - 1 / 2 / 2)))"
    by (rule edge_upper) simp_all
  also have "\<dots> \<le> 405 / 100 * pi"
    by (simp add: power2_eq_square field_simps)
  finally show ?thesis .
qed

section \<open>A bound on the area sum\<close>

lemma central_diff_bound:
  assumes "\<And>m. m < N \<Longrightarrow> \<bar>f m\<bar> \<le> B" and "2 \<le> N" and "k < N"
  shows "\<bar>central_diff f N k\<bar> \<le> 2 * B"
proof -
  have two: "\<bar>f a - f b\<bar> \<le> 2 * B" if "a < N" "b < N" for a b
    using assms(1) [OF that(1)] assms(1) [OF that(2)] by linarith
  have B: "0 \<le> B" using assms(1) [OF assms(3)] by linarith
  consider "k = 0" | "k \<noteq> 0" "k = N - 1" | "k \<noteq> 0" "k \<noteq> N - 1" by blast
  then show ?thesis
  proof cases
    case 1
    from assms(2) have "1 < N" "0 < N" by arith+
    from two [OF this] 1 show ?thesis by (simp add: central_diff_def)
  next
    case 2
    from assms(2) have "N - 1 < N" "N - 2 < N" by arith+
    from two [OF this] 2 show ?thesis by (simp add: central_diff_def)
  next
    case 3
    with assms(3) have "k + 1 < N" "k - 1 < N" by arith+
    from two [OF this] have "\<bar>(f (k + 1) - f (k - 1)) / 2\<bar> \<le> B" by simp
    with B 3 show ?thesis by (simp add: central_diff_def)
  qed
qed

lemma central_diff_affine:
  assumes "2 \<le> N" and "k < N"
  shows "central_diff (\<lambda>r. p + (a + real r * d) * q) N k = d * q"
proof -
  define M where "M = N - 2"
  from assms(1) have N: "N = Suc (Suc M)" by (simp add: M_def)
  consider "k = 0" | "k = Suc M" | j where "k = Suc j" "j < M"
    using assms(2) unfolding N by (cases k) (auto simp: less_Suc_eq)
  then show ?thesis
  proof cases
    case 1
    have "(p + (a + real (1::nat) * d) * q) - (p + (a + real (0::nat) * d) * q) = d * q"
      by (simp add: algebra_simps)
    then show ?thesis unfolding 1 central_diff_def by simp
  next
    case 2
    have "(p + (a + real (Suc M) * d) * q) - (p + (a + real M * d) * q) = d * q"
      by (simp add: algebra_simps)
    then show ?thesis unfolding 2 N central_diff_def by simp
  next
    case 3
    have "((p + (a + real (Suc (Suc j)) * d) * q) - (p + (a + real j * d) * q)) / 2 = d * q"
      by (simp add: algebra_simps)
    moreover from 3 have "Suc j \<noteq> Suc M" by simp
    ultimately show ?thesis unfolding 3(1) N central_diff_def by simp
  qed
qed

lemma v_sample_affine: "v_sample w n r = - w / 2 + real r * (w / real_of_int (n - 1))"
  by (simp add: v_sample_def)

lemma v_sample_range:
  assumes "2 \<le> n" and "0 \<le> w" and "i < nat n"
  shows "\<bar>v_sample w n i\<bar> \<le> w / 2"
proof -
  define t where "t = real i * w / real_of_int (n - 1)"
  from assms(1) have p: "0 < real_of_int (n - 1)" by simp
  from assms(1,3) have "int i \<le> n - 1" by linarith
  then have "real i \<le> real_of_int (n - 1)"
    by (metis of_int_le_iff of_int_of_nat_eq)
  then have "real i * w \<le> real_of_int (n - 1) * w"
    using assms(2) by (intro mult_right_mono)
  then have "t \<le> w"
    unfolding t_def using p by (simp only: pos_divide_le_eq mult.commute)
  moreover have "0 \<le> t"
    unfolding t_def using p assms(2) by (intro divide_nonneg_pos mult_nonneg_nonneg) simp_all
  moreover have "v_sample w n i = - (w / 2) + t"
    by (simp add: v_sample_def t_def)
  ultimately show ?thesis by linarith
qed

lemma abs_cos_mult_le: "\<bar>a\<bar> \<le> B \<Longrightarrow> \<bar>a * cos t\<bar> \<le> (B::real)"
proof -
  assume a: "\<bar>a\<bar> \<le> B"
  have "\<bar>a\<bar> * \<bar>cos t\<bar> \<le> \<bar>a\<bar> * 1" by (intro mult_left_mono) simp_all
  with a show ?thesis unfolding abs_mult by simp
qed

lemma abs_sin_mult_le: "\<bar>a\<bar> \<le> B \<Longrightarrow> \<bar>a * sin t\<bar> \<le> (B::real)"
proof -
  assume a: "\<bar>a\<bar> \<le> B"
  have "\<bar>a\<bar> * \<bar>sin t\<bar> \<le> \<bar>a\<bar> * 1" by (intro mult_left_mono) simp_all
  with a show ?thesis unfolding abs_mult by simp
qed

lemma mobius_bounds:
  assumes "\<bar>v\<bar> \<le> h" and "0 \<le> R"
  shows "\<bar>mobius_x R t v\<bar> \<le> R + h" and "\<bar>mobius_y R t v\<bar> \<le> R + h" and "\<bar>mobius_z t v\<bar> \<le> R + h"
proof -
  have "\<bar>v * cos (t / 2)\<bar> \<le> h" by (rule abs_cos_mult_le [OF assms(1)])
  then have r: "\<bar>R + v * cos (t / 2)\<bar> \<le> R + h" using assms(2) by linarith
  show "\<bar>mobius_x R t v\<bar> \<le> R + h" unfolding mobius_x_def by (rule abs_cos_mult_le [OF r])
  show "\<bar>mobius_y R t v\<bar> \<le> R + h" unfolding mobius_y_def by (rule abs_sin_mult_le [OF r])
  have "\<bar>v * sin (t / 2)\<bar> \<le> h" by (rule abs_sin_mult_le [OF assms(1)])
  then show "\<bar>mobius_z t v\<bar> \<le> R + h" unfolding mobius_z_def using assms(2) by linarith
qed

lemma cross_magnitude_bound:
  assumes "\<bar>xu\<bar> \<le> A" "\<bar>yu\<bar> \<le> A" "\<bar>zu\<bar> \<le> A" "\<bar>xv\<bar> \<le> D" "\<bar>yv\<bar> \<le> D" "\<bar>zv\<bar> \<le> D"
  shows "cross_magnitude (xu, yu, zu) (xv, yv, zv) \<le> 4 * A * D"
proof -
  have A: "0 \<le> A" and D: "0 \<le> D" using assms(1,4) by linarith+
  have comp: "\<bar>p * q - r * s\<bar> \<le> 2 * A * D"
    if "\<bar>p\<bar> \<le> A" "\<bar>r\<bar> \<le> A" "\<bar>q\<bar> \<le> D" "\<bar>s\<bar> \<le> D" for p q r s
  proof -
    have "\<bar>p * q\<bar> \<le> A * D" "\<bar>r * s\<bar> \<le> A * D"
      unfolding abs_mult using that by (intro mult_mono; simp)+
    then show ?thesis by linarith
  qed
  have sq: "t\<^sup>2 \<le> (2 * A * D)\<^sup>2" if "\<bar>t\<bar> \<le> 2 * A * D" for t
    using that by (metis abs_le_square_iff abs_of_nonneg A D mult_nonneg_nonneg zero_le_numeral)
  have "(yu * zv - zu * yv)\<^sup>2 + (zu * xv - xu * zv)\<^sup>2 + (xu * yv - yu * xv)\<^sup>2
      \<le> 3 * (2 * A * D)\<^sup>2"
    using sq [OF comp [OF assms(2,3,6,5)]] sq [OF comp [OF assms(3,1,4,6)]]
      sq [OF comp [OF assms(1,2,5,4)]] by linarith
  also have "\<dots> \<le> (4 * A * D)\<^sup>2"
    by (simp add: power_mult_distrib)
  finally show ?thesis
    unfolding cross_magnitude_def prod.case
    using A D by (intro real_le_lsqrt) simp_all
qed


lemma abs_unit_products:
  "\<bar>cos (a::real) * cos b\<bar> \<le> 1" "\<bar>cos (a::real) * sin b\<bar> \<le> 1" "\<bar>sin (a::real)\<bar> \<le> 1"
proof -
  have "\<bar>cos a\<bar> \<le> 1" by simp
  then show "\<bar>cos a * cos b\<bar> \<le> 1" by (rule abs_cos_mult_le)
  from \<open>\<bar>cos a\<bar> \<le> 1\<close> show "\<bar>cos a * sin b\<bar> \<le> 1" by (rule abs_sin_mult_le)
  show "\<bar>sin a\<bar> \<le> 1" by simp
qed

lemma v_derivatives:
  assumes "2 \<le> n" and "0 \<le> w" and "i < nat n"
  shows "\<bar>central_diff (\<lambda>r. mobius_x R t (v_sample w n r)) (nat n) i\<bar> \<le> w / real_of_int (n - 1)"
    and "\<bar>central_diff (\<lambda>r. mobius_y R t (v_sample w n r)) (nat n) i\<bar> \<le> w / real_of_int (n - 1)"
    and "\<bar>central_diff (\<lambda>r. mobius_z t (v_sample w n r)) (nat n) i\<bar> \<le> w / real_of_int (n - 1)"
proof -
  define d where "d = w / real_of_int (n - 1)"
  from assms(1) have N: "2 \<le> nat n" by simp
  from assms(1,2) have d: "0 \<le> d" by (simp add: d_def)
  have scale: "\<bar>d * q\<bar> \<le> d" if "\<bar>q\<bar> \<le> 1" for q
  proof -
    have "\<bar>d\<bar> * \<bar>q\<bar> \<le> \<bar>d\<bar> * 1" using that by (intro mult_left_mono) simp_all
    with d show ?thesis unfolding abs_mult by simp
  qed
  have x: "(\<lambda>r. mobius_x R t (v_sample w n r))
      = (\<lambda>r. R * cos t + (- w / 2 + real r * d) * (cos (t / 2) * cos t))"
    by (rule ext) (simp add: mobius_x_def v_sample_affine d_def algebra_simps)
  have y: "(\<lambda>r. mobius_y R t (v_sample w n r))
      = (\<lambda>r. R * sin t + (- w / 2 + real r * d) * (cos (t / 2) * sin t))"
    by (rule ext) (simp add: mobius_y_def v_sample_affine d_def algebra_simps)
  have z: "(\<lambda>r. mobius_z t (v_sample w n r))
      = (\<lambda>r. 0 + (- w / 2 + real r * d) * sin (t / 2))"
    by (rule ext) (simp add: mobius_z_def v_sample_affine d_def algebra_simps)
  show "\<bar>central_diff (\<lambda>r. mobius_x R t (v_sample w n r)) (nat n) i\<bar> \<le> w / real_of_int (n - 1)"
    unfolding x central_diff_affine [OF N assms(3)] d_def [symmetric]
    by (rule scale) (rule abs_unit_products)
  show "\<bar>central_diff (\<lambda>r. mobius_y R t (v_sample w n r)) (nat n) i\<bar> \<le> w / real_of_int (n - 1)"
    unfolding y central_diff_affine [OF N assms(3)] d_def [symmetric]
    by (rule scale) (rule abs_unit_products)
  show "\<bar>central_diff (\<lambda>r. mobius_z t (v_sample w n r)) (nat n) i\<bar> \<le> w / real_of_int (n - 1)"
    unfolding z central_diff_affine [OF N assms(3)] d_def [symmetric]
    by (rule scale) (rule abs_unit_products)
qed

lemma u_derivatives:
  assumes "2 \<le> n" and "0 \<le> w" and "0 \<le> R" and "i < nat n" and "j < nat n"
  shows "\<bar>central_diff (\<lambda>c. mobius_x R (u_sample n c) (v_sample w n i)) (nat n) j\<bar> \<le> 2 * (R + w / 2)"
    and "\<bar>central_diff (\<lambda>c. mobius_y R (u_sample n c) (v_sample w n i)) (nat n) j\<bar> \<le> 2 * (R + w / 2)"
    and "\<bar>central_diff (\<lambda>c. mobius_z (u_sample n c) (v_sample w n i)) (nat n) j\<bar> \<le> 2 * (R + w / 2)"
proof -
  from assms(1) have N: "2 \<le> nat n" by simp
  note v = v_sample_range [OF assms(1,2,4)]
  show "\<bar>central_diff (\<lambda>c. mobius_x R (u_sample n c) (v_sample w n i)) (nat n) j\<bar> \<le> 2 * (R + w / 2)"
    by (rule central_diff_bound [OF _ N assms(5)]) (rule mobius_bounds [OF v assms(3)])
  show "\<bar>central_diff (\<lambda>c. mobius_y R (u_sample n c) (v_sample w n i)) (nat n) j\<bar> \<le> 2 * (R + w / 2)"
    by (rule central_diff_bound [OF _ N assms(5)]) (rule mobius_bounds [OF v assms(3)])
  show "\<bar>central_diff (\<lambda>c. mobius_z (u_sample n c) (v_sample w n i)) (nat n) j\<bar> \<le> 2 * (R + w / 2)"
    by (rule central_diff_bound [OF _ N assms(5)]) (rule mobius_bounds [OF v assms(3)])
qed

lemma dA_bound:
  assumes "2 \<le> n" and "0 \<le> w" and "0 \<le> R" and "i < nat n" and "j < nat n"
  shows "spec_dA (\<lambda>i j. mobius_x R (u_sample n j) (v_sample w n i))
                 (\<lambda>i j. mobius_y R (u_sample n j) (v_sample w n i))
                 (\<lambda>i j. mobius_z (u_sample n j) (v_sample w n i)) (nat n) i j
       \<le> 4 * (2 * (R + w / 2)) * (w / real_of_int (n - 1))"
  unfolding spec_dA_def
  by (rule cross_magnitude_bound)
     (rule u_derivatives [OF assms] v_derivatives [OF assms(1,2,4)])+

lemma surface_upper:
  assumes "2 \<le> n" and "0 \<le> w" and "0 \<le> R"
  shows "(\<Sum>i<nat n. \<Sum>j<nat n.
            spec_dA (\<lambda>i j. mobius_x R (u_sample n j) (v_sample w n i))
                    (\<lambda>i j. mobius_y R (u_sample n j) (v_sample w n i))
                    (\<lambda>i j. mobius_z (u_sample n j) (v_sample w n i)) (nat n) i j)
          * (2 * pi / real_of_int (n - 1)) * (w / real_of_int (n - 1))
       \<le> (real (nat n) * (real (nat n) * (4 * (2 * (R + w / 2)) * (w / real_of_int (n - 1)))))
          * (2 * pi / real_of_int (n - 1)) * (w / real_of_int (n - 1))"
proof -
  from assms(1,2) have d: "0 \<le> w / real_of_int (n - 1)" and u: "0 \<le> 2 * pi / real_of_int (n - 1)"
    by simp_all
  have "(\<Sum>i<nat n. \<Sum>j<nat n.
            spec_dA (\<lambda>i j. mobius_x R (u_sample n j) (v_sample w n i))
                    (\<lambda>i j. mobius_y R (u_sample n j) (v_sample w n i))
                    (\<lambda>i j. mobius_z (u_sample n j) (v_sample w n i)) (nat n) i j)
      \<le> (\<Sum>i<nat n. \<Sum>j<nat n. 4 * (2 * (R + w / 2)) * (w / real_of_int (n - 1)))"
    by (intro sum_mono dA_bound [OF assms]) simp_all
  also have "\<dots> = real (nat n) * (real (nat n) * (4 * (2 * (R + w / 2)) * (w / real_of_int (n - 1))))"
    by (simp only: sum_constant card_lessThan)
  finally show ?thesis
    using d u by (intro mult_right_mono)
qed

lemma surface_literal_upper:
  "(\<Sum>i<nat 200. \<Sum>j<nat 200.
            spec_dA (\<lambda>i j. mobius_x 1 (u_sample 200 j) (v_sample (1 / 2) 200 i))
                    (\<lambda>i j. mobius_y 1 (u_sample 200 j) (v_sample (1 / 2) 200 i))
                    (\<lambda>i j. mobius_z (u_sample 200 j) (v_sample (1 / 2) 200 i)) (nat 200) i j)
          * (2 * pi / real_of_int (200 - 1)) * (1 / 2 / real_of_int (200 - 1)) \<le> 1 / 5"
proof -
  have b: "(real (nat 200) * (real (nat 200) * (4 * (2 * (1 + 1 / 2 / 2)) * (1 / 2 / real_of_int (200 - 1)))))
          * (2 * pi / real_of_int (200 - 1)) * (1 / 2 / real_of_int (200 - 1)) \<le> 1 / 5"
    using pi_less_4 by simp
  have a: "(\<Sum>i<nat 200. \<Sum>j<nat 200.
            spec_dA (\<lambda>i j. mobius_x 1 (u_sample 200 j) (v_sample (1 / 2) 200 i))
                    (\<lambda>i j. mobius_y 1 (u_sample 200 j) (v_sample (1 / 2) 200 i))
                    (\<lambda>i j. mobius_z (u_sample 200 j) (v_sample (1 / 2) 200 i)) (nat 200) i j)
          * (2 * pi / real_of_int (200 - 1)) * (1 / 2 / real_of_int (200 - 1))
      \<le> (real (nat 200) * (real (nat 200) * (4 * (2 * (1 + 1 / 2 / 2)) * (1 / 2 / real_of_int (200 - 1)))))
          * (2 * pi / real_of_int (200 - 1)) * (1 / 2 / real_of_int (200 - 1))"
    by (rule surface_upper) simp_all
  from a b show ?thesis by (rule order_trans)
qed

section \<open>The literal scenario\<close>

lemma literal_runs:
  "init 1 (1 / 2) 200 = Inr (grid 1 (1 / 2) 200)"
  "edge_length (grid 1 (1 / 2) 200) = Inr (spec_edge_length 1 (1 / 2) 200)"
  by (simp_all add: init_grid edge_length_grid)

lemma literal_surface:
  "\<exists>a. surface_area (grid 1 (1 / 2) 200) = Inr a \<and> a \<le> 1 / 5"
proof -
  have "surface_area (grid 1 (1 / 2) 200) =
     Inr ((\<Sum>i<nat 200. \<Sum>j<nat 200.
            spec_dA (\<lambda>i j. mobius_x 1 (u_sample 200 j) (v_sample (1 / 2) 200 i))
                    (\<lambda>i j. mobius_y 1 (u_sample 200 j) (v_sample (1 / 2) 200 i))
                    (\<lambda>i j. mobius_z (u_sample 200 j) (v_sample (1 / 2) 200 i)) (nat 200) i j)
          * (2 * pi / real_of_int (200 - 1)) * (1 / 2 / real_of_int (200 - 1)))"
    by (rule surface_area_grid) simp
  with surface_literal_upper show ?thesis by blast
qed

text \<open>
  Claim C1, as amended.  For \<open>R = 1.0\<close>, \<open>w = 0.5\<close>, \<open>n = 200\<close> the constructor succeeds and
  \<^verbatim>\<open>edge_length\<close> returns a number between \<open>3.99\<cdot>\<pi>\<close> and \<open>4.05\<cdot>\<pi>\<close>, that is, about
  12.53 to 12.73: twice the length of one turn of the boundary.
\<close>

theorem literal_scenario_edge:
  "\<exists>self e. init 1 (1 / 2) 200 = Inr self \<and> edge_length self = Inr e
     \<and> 399 / 100 * pi \<le> e \<and> e \<le> 405 / 100 * pi"
  using literal_runs edge_literal_lower edge_literal_upper by blast

text \<open>
  The ranges of the claim as written are both missed: in the same scenario
  \<^verbatim>\<open>surface_area\<close> returns at most 0.2 and \<^verbatim>\<open>edge_length\<close> at least 7.98.
\<close>

theorem literal_scenario_counterexample:
  "\<exists>self a e. init 1 (1 / 2) 200 = Inr self
     \<and> surface_area self = Inr a \<and> edge_length self = Inr e
     \<and> a \<le> 1 / 5 \<and> 798 / 100 \<le> e
     \<and> \<not> (3 \<le> a \<and> a \<le> 36 / 10 \<and> 63 / 10 \<le> e \<and> e \<le> 65 / 10)"
proof -
  from literal_surface obtain a where
    a: "surface_area (grid 1 (1 / 2) 200) = Inr a" "a \<le> 1 / 5" by blast
  have "399 / 100 * 2 \<le> 399 / 100 * pi" using pi_ge_two by simp
  with edge_literal_lower have e: "798 / 100 \<le> spec_edge_length 1 (1 / 2) 200" by simp
  then have "\<not> (3 \<le> a \<and> a \<le> 36 / 10 \<and> 63 / 10 \<le> spec_edge_length 1 (1 / 2) 200
      \<and> spec_edge_length 1 (1 / 2) 200 \<le> 65 / 10)" by simp
  with literal_runs a e show ?thesis by blast
qed

section \<open>Two samples per axis\<close>

text \<open>
  With two samples per axis the exact result of \<^verbatim>\<open>surface_area\<close> is 0, whatever the
  radius and the width: both columns of the grid lie on the \<open>x\<close>-axis.
\<close>

theorem surface_area_two_samples:
  "\<exists>s. init R w 2 = Inr s \<and> surface_area s = Inr 0"
proof -
  have "surface_area (grid R w 2) = Inr 0"
    by (simp add: surface_area_grid spec_dA_def cross_magnitude_def central_diff_def
        u_sample_def v_sample_def mobius_x_def mobius_y_def mobius_z_def lessThan2)
  with init_grid [of 2 R w] show ?thesis by simp
qed

section \<open>What a call leaves in memory\<close>

text \<open>
  Every step of the two bodies only extends the memory; sequencing keeps that.  A step
  that rebinds a field does not have the property.
\<close>

lemma extends_refl: "extends s s"
  by (simp add: extends_def)

lemma extends_trans: "extends s s' \<Longrightarrow> extends s' s'' \<Longrightarrow> extends s s''"
  unfolding extends_def
  by (metis append_eq_conv_conj append_take_drop_id append_assoc)

lemma frame_ret: "frame (ret v)" and frame_raise: "frame (raise e)"
  and frame_lift_err: "frame (lift_err r)" and frame_self_field: "frame (self_field f)"
  and frame_load1: "frame (load1 p)" and frame_load2: "frame (load2 p)"
  and frame_new_array: "frame (new_array a)"
  by (simp_all add: frame_def extends_def ret_def raise_def lift_err_def self_field_def
      load1_def load2_def new_array_def split: option.splits)

lemma frame_bind:
  assumes "frame m" and "\<And>a. frame (f a)"
  shows "frame (bind_run m f)"
proof -
  have "extends s (snd (bind_run m f s))" for s
  proof (cases "m s")
    case (Pair r s')
    from assms(1) have e: "extends s s'" using Pair by (auto simp: frame_def dest: spec [of _ s])
    show ?thesis
    proof (cases r)
      case (Inl e')
      with Pair e show ?thesis by (simp add: bind_run_def)
    next
      case (Inr a)
      from assms(2) [of a] have "extends s' (snd (f a s'))" by (simp add: frame_def)
      with e have "extends s (snd (f a s'))" by (rule extends_trans)
      with Pair Inr show ?thesis by (simp add: bind_run_def)
    qed
  qed
  then show ?thesis by (simp add: frame_def)
qed

lemma frame_if: "frame m \<Longrightarrow> frame m' \<Longrightarrow> frame (if c then m else m')"
  by simp

lemmas frame_intros = frame_bind frame_ret frame_raise frame_lift_err frame_self_field
  frame_load1 frame_load2 frame_new_array frame_if

lemma frame_surface_area_run: "frame surface_area_run"
  unfolding surface_area_run_def np_gradient_run_def cross_run_def magnitude_run_def
    np_sum_run_def Let_def
  by (intro frame_intros)

lemma frame_edge_length_run: "frame edge_length_run"
  unfolding edge_length_run_def np_linspace_run_def map_run_def np_diff_run_def chord_run_def
    Let_def
  by (intro frame_intros)

lemma get2_SomeD:
  "get2 h r = Some a \<Longrightarrow> r < length h \<and> h ! r = Arr2 a"
  by (auto simp: get2_def split: if_splits array.splits)

lemma view_SomeD:
  assumes "view s = Some self"
  shows "self_R self = obj_R (this s)" "self_w self = obj_w (this s)" "self_n self = obj_n (this s)"
    "get2 (heap s) (obj_u (this s)) = Some (self_u self)"
    "get2 (heap s) (obj_v (this s)) = Some (self_v self)"
    "get2 (heap s) (obj_x (this s)) = Some (self_x self)"
    "get2 (heap s) (obj_y (this s)) = Some (self_y self)"
    "get2 (heap s) (obj_z (this s)) = Some (self_z self)"
  using assms by (auto simp: view_def Option.bind_eq_Some_conv)

lemma surface_area_run_result:
  assumes "view s = Some self"
  shows "fst (surface_area_run s) = surface_area self"
proof -
  note v = view_SomeD [OF assms]
  note x = get2_SomeD [OF v(6)] and y = get2_SomeD [OF v(7)] and z = get2_SomeD [OF v(8)]
  show ?thesis
    using x y z
    unfolding surface_area_run_def surface_area_def v(1,2,3)
    by (simp add: bind_run_def bind_err_def self_field_def raise_def ret_def lift_err_def
        np_gradient_run_def cross_run_def magnitude_run_def np_sum_run_def new_array_def
        load2_def get2_def nth_append Let_def split: sum.splits)
qed

lemma init_run_view:
  assumes "init R w n = Inr self"
  shows "\<exists>s. init_run R w n h = Inr s \<and> view s = Some self"
  using assms
  by (auto simp: init_def init_run_def bind_err_def view_def get2_def nth_append Let_def
      split: sum.splits prod.splits)

lemma init_run_error: "init R w n = Inl e \<Longrightarrow> init_run R w n h = Inl e"
  by (auto simp: init_def init_run_def bind_err_def Let_def split: sum.splits prod.splits)

lemma edge_length_run_result:
  assumes "view s = Some self"
  shows "fst (edge_length_run s) = edge_length self"
proof -
  note v = view_SomeD [OF assms]
  show ?thesis
    unfolding edge_length_run_def edge_length_def edge_points_def edge_chords_def v(1,2,3)
    by (simp add: bind_run_def bind_err_def self_field_def raise_def ret_def lift_err_def
        np_linspace_run_def map_run_def np_diff_run_def chord_run_def new_array_def
        load1_def get1_def nth_append Let_def split: sum.splits)
qed

lemma get2_extends:
  assumes "extends s s'" and "get2 (heap s) r = Some a"
  shows "get2 (heap s') r = Some a"
proof -
  from get2_SomeD [OF assms(2)] have r: "r < length (heap s)" and a: "heap s ! r = Arr2 a"
    by simp_all
  from assms(1) have t: "take (length (heap s)) (heap s') = heap s" by (simp add: extends_def)
  have "length (take (length (heap s)) (heap s')) = length (heap s)"
    by (simp only: t)
  then have "length (heap s) \<le> length (heap s')"
    by simp
  moreover have "take (length (heap s)) (heap s') ! r = heap s' ! r"
    using r by (rule nth_take)
  then have "heap s' ! r = heap s ! r"
    by (simp only: t)
  ultimately show ?thesis using r a by (simp add: get2_def)
qed

lemma view_extends:
  assumes "extends s s'" and "view s = Some self"
  shows "view s' = Some self"
proof -
  note v = view_SomeD [OF assms(2)]
  from assms(1) have t: "this s' = this s" by (simp add: extends_def)
  show ?thesis
    unfolding view_def t
    using v(4-8) [THEN get2_extends [OF assms(1)]] v(1,2,3)
    by simp
qed

lemma frame_excludes_rebinding:
  "\<not> frame (\<lambda>s. (Inr (), s\<lparr>this := (this s)\<lparr>obj_x := Suc (obj_x (this s))\<rparr>\<rparr>))"
proof
  assume "frame (\<lambda>s. (Inr (), s\<lparr>this := (this s)\<lparr>obj_x := Suc (obj_x (this s))\<rparr>\<rparr>))"
  then have "extends s (s\<lparr>this := (this s)\<lparr>obj_x := Suc (obj_x (this s))\<rparr>\<rparr>)" for s
    by (simp add: frame_def)
  then have "obj_x ((this s)\<lparr>obj_x := Suc (obj_x (this s))\<rparr>) = obj_x (this s)" for s :: memory
    by (simp add: extends_def)
  then show False by simp
qed

text \<open>
  Claim C8.  Take any memory whose object points to five two-dimensional arrays, as the
  constructor leaves it.  A call of \<^verbatim>\<open>surface_area\<close> or of \<^verbatim>\<open>edge_length\<close> returns what the
  method computes from the values the object holds, leaves every field bound as it was,
  leaves every cell of the memory with its content (so the arrays behind \<open>u\<close>, \<open>v\<close>, \<open>x\<close>,
  \<open>y\<close>, \<open>z\<close> are the same), and a second call of either method, after any of the two,
  returns the same result although it runs on a memory that has grown.
\<close>

theorem methods_leave_object:
  assumes "view s = Some self"
  shows "\<exists>s1 s2. surface_area_run s = (surface_area self, s1)
       \<and> edge_length_run s = (edge_length self, s2)
       \<and> this s1 = this s \<and> take (length (heap s)) (heap s1) = heap s \<and> view s1 = Some self
       \<and> this s2 = this s \<and> take (length (heap s)) (heap s2) = heap s \<and> view s2 = Some self
       \<and> fst (surface_area_run s1) = surface_area self
       \<and> fst (edge_length_run s1) = edge_length self
       \<and> fst (surface_area_run s2) = surface_area self
       \<and> fst (edge_length_run s2) = edge_length self"
proof -
  define s1 where "s1 = snd (surface_area_run s)"
  define s2 where "s2 = snd (edge_length_run s)"
  have r1: "surface_area_run s = (surface_area self, s1)"
    using surface_area_run_result [OF assms] by (simp add: s1_def prod_eq_iff)
  have r2: "edge_length_run s = (edge_length self, s2)"
    using edge_length_run_result [OF assms] by (simp add: s2_def prod_eq_iff)
  have e1: "extends s s1" using frame_surface_area_run by (simp add: frame_def s1_def)
  have e2: "extends s s2" using frame_edge_length_run by (simp add: frame_def s2_def)
  note v1 = view_extends [OF e1 assms] and v2 = view_extends [OF e2 assms]
  from e1 e2 have "this s1 = this s" "take (length (heap s)) (heap s1) = heap s"
    "this s2 = this s" "take (length (heap s)) (heap s2) = heap s"
    by (simp_all add: extends_def)
  with r1 r2 v1 v2 surface_area_run_result [OF v1] edge_length_run_result [OF v1]
    surface_area_run_result [OF v2] edge_length_run_result [OF v2]
  show ?thesis by blast
qed

theorem methods_leave_object_witness:
  "\<exists>s s1. init_run 1 1 3 [] = Inr s \<and> view s = Some (grid 1 1 3)
     \<and> surface_area_run s = (Inr (3 * pi / 4), s1)
     \<and> this s1 = this s \<and> view s1 = Some (grid 1 1 3)
     \<and> fst (surface_area_run s1) = Inr (3 * pi / 4)
     \<and> fst (edge_length_run s1) = Inr (2 * (sqrt (13 / 2) + sqrt (5 / 2)))"
proof -
  have "init 1 1 3 = Inr (grid 1 1 3)" by (simp add: init_grid)
  from init_run_view [OF this, of "[]"] obtain s where
    s: "init_run 1 1 3 [] = Inr s" "view s = Some (grid 1 1 3)" by blast
  from methods_leave_object [OF s(2)] s show ?thesis
    unfolding surface_area_3 edge_length_3 by blast
qed

end
